theory Spec2Isabelle
  imports Main "HOL-Library.AList" "HOL-Library.Sublist"
begin

section \<open>Cache breakpoint planner (anthropic-cache middleware)\<close>

subsection \<open>Messages and provider options\<close>

text \<open>
  A prompt is an array of \<open>LanguageModelV3Message\<close> objects. A message has a role, a
  content and optional \<open>providerOptions\<close>, a \<open>Record<string, JSONObject>\<close>. JavaScript
  objects are association lists here: an object literal \<open>{...a, k: v}\<close> keeps the
  position of an existing key \<open>k\<close> and appends a new one, which is \<open>AList.update\<close>.
\<close>

datatype role = System | User | Assistant | Tool

datatype json =
    JNull
  | JBool bool
  | JNum int
  | JStr string
  | JArr "json list"
  | JObj "(string \<times> json) list"

type_synonym json_object = "(string \<times> json) list"

type_synonym provider_options = "(string \<times> json_object) list"

record message =
  role :: role
  msg_content :: json
  providerOptions :: "provider_options option"

text \<open>\<open>const CACHE_CONTROL = { type: 'ephemeral' as const }\<close>\<close>

definition CACHE_CONTROL :: json where
  "CACHE_CONTROL = JObj [(''type'', JStr ''ephemeral'')]"

text \<open>\<open>msg.providerOptions ?? {}\<close>\<close>

definition options_of :: "message \<Rightarrow> provider_options" where
  "options_of msg = (case providerOptions msg of None \<Rightarrow> [] | Some po \<Rightarrow> po)"

text \<open>\<open>msg.providerOptions?.anthropic ?? {}\<close>\<close>

definition anthropic_of :: "message \<Rightarrow> json_object" where
  "anthropic_of msg =
     (case providerOptions msg of
        None \<Rightarrow> []
      | Some po \<Rightarrow> (case map_of po ''anthropic'' of None \<Rightarrow> [] | Some a \<Rightarrow> a))"

definition withCache :: "message \<Rightarrow> message" where
  "withCache msg =
     msg\<lparr>providerOptions :=
       Some (AList.update ''anthropic''
               (AList.update ''cacheControl'' CACHE_CONTROL (anthropic_of msg))
               (options_of msg))\<rparr>"

text \<open>Reading a provider's option, and an option of the \<open>anthropic\<close> provider.\<close>

definition provider_option :: "message \<Rightarrow> string \<Rightarrow> json_object option" where
  "provider_option msg k =
     (case providerOptions msg of None \<Rightarrow> None | Some po \<Rightarrow> map_of po k)"

definition anthropic_option :: "message \<Rightarrow> string \<Rightarrow> json option" where
  "anthropic_option msg k =
     (case provider_option msg ''anthropic'' of None \<Rightarrow> None | Some a \<Rightarrow> map_of a k)"

text \<open>A message carries a CacheMarker when its anthropic options hold the cache control.\<close>

definition carries_marker :: "message \<Rightarrow> bool" where
  "carries_marker msg \<longleftrightarrow> anthropic_option msg ''cacheControl'' = Some CACHE_CONTROL"

subsection \<open>The planner on message values\<close>

text \<open>\<open>Array.prototype.findIndex\<close>: the first index whose element satisfies the
  predicate, \<open>-1\<close> when there is none.\<close>

fun findIndex :: "('a \<Rightarrow> bool) \<Rightarrow> 'a list \<Rightarrow> int" where
  "findIndex P [] = - 1"
| "findIndex P (x # xs) =
     (if P x then 0
      else (let i = findIndex P xs in if i = - 1 then - 1 else i + 1))"

definition is_system :: "message \<Rightarrow> bool" where
  "is_system m \<longleftrightarrow> role m = System"

definition injectCacheControl :: "message list \<Rightarrow> message list" where
  "injectCacheControl prompt =
     (if length prompt = 0 then prompt
      else
        let result = prompt;
            sysIdx = findIndex is_system result;
            result = (if sysIdx \<noteq> - 1
                      then result[nat sysIdx := withCache (result ! nat sysIdx)]
                      else result);
            result = (if 3 \<le> length result
                      then (let targetIdx = int (length result) - 2
                            in if targetIdx \<noteq> sysIdx
                               then result[nat targetIdx := withCache (result ! nat targetIdx)]
                               else result)
                      else result)
        in result)"

text \<open>The positions of an output that carry a marker, in increasing order.\<close>

definition marked :: "message list \<Rightarrow> nat list" where
  "marked ms = filter (\<lambda>i. carries_marker (ms ! i)) [0..<length ms]"

subsection \<open>The planner on a store of arrays and message objects\<close>

text \<open>
  The source works on references: \<open>[...prompt]\<close> allocates a new array holding the same
  message references, \<open>withCache\<close> allocates a new message object, and
  \<open>result[i] = ...\<close> writes into the new array. The store below makes that visible. An
  address is an index into the store; allocation appends. A read at an address that
  holds no object of the expected kind gives \<open>None\<close> (typed callers never do that).
\<close>

type_synonym addr = nat

datatype obj = Arr "addr list" | Msg message

type_synonym heap = "obj list"

definition alloc :: "heap \<Rightarrow> obj \<Rightarrow> heap \<times> addr" where
  "alloc h ob = (h @ [ob], length h)"

definition get_arr :: "heap \<Rightarrow> addr \<Rightarrow> addr list option" where
  "get_arr h a =
     (if a < length h then (case h ! a of Arr xs \<Rightarrow> Some xs | Msg _ \<Rightarrow> None) else None)"

definition get_msg :: "heap \<Rightarrow> addr \<Rightarrow> message option" where
  "get_msg h a =
     (if a < length h then (case h ! a of Msg m \<Rightarrow> Some m | Arr _ \<Rightarrow> None) else None)"

fun get_msgs :: "heap \<Rightarrow> addr list \<Rightarrow> message list option" where
  "get_msgs h [] = Some []"
| "get_msgs h (a # as) =
     (case get_msg h a of
        None \<Rightarrow> None
      | Some m \<Rightarrow> (case get_msgs h as of None \<Rightarrow> None | Some ms \<Rightarrow> Some (m # ms)))"

text \<open>The prompt value an array address denotes.\<close>

definition read_prompt :: "heap \<Rightarrow> addr \<Rightarrow> message list option" where
  "read_prompt h p = (case get_arr h p of None \<Rightarrow> None | Some as \<Rightarrow> get_msgs h as)"

text \<open>\<open>result[i] = withCache(result[i])\<close> on the array at address \<open>r\<close>.\<close>

definition mark_at :: "heap \<Rightarrow> addr \<Rightarrow> nat \<Rightarrow> heap option" where
  "mark_at h r i =
     (case get_arr h r of
        None \<Rightarrow> None
      | Some as \<Rightarrow>
          (if i < length as
           then (case get_msg h (as ! i) of
                   None \<Rightarrow> None
                 | Some m \<Rightarrow>
                     (let (h1, a) = alloc h (Msg (withCache m))
                      in Some (h1[r := Arr (as[i := a])])))
           else None))"

definition injectCacheControl_heap :: "heap \<Rightarrow> addr \<Rightarrow> (heap \<times> addr) option" where
  "injectCacheControl_heap h prompt =
     (case read_prompt h prompt of
        None \<Rightarrow> None
      | Some ms \<Rightarrow>
          (if length ms = 0 then Some (h, prompt)
           else
             (case get_arr h prompt of
                None \<Rightarrow> None
              | Some as \<Rightarrow>
                  (let (h0, result) = alloc h (Arr as);
                       sysIdx = findIndex is_system ms;
                       h1 = (if sysIdx \<noteq> - 1 then mark_at h0 result (nat sysIdx) else Some h0)
                   in (case h1 of
                         None \<Rightarrow> None
                       | Some h1 \<Rightarrow>
                           (let h2 = (if 3 \<le> length as
                                      then (let targetIdx = int (length as) - 2
                                            in if targetIdx \<noteq> sysIdx
                                               then mark_at h1 result (nat targetIdx)
                                               else Some h1)
                                      else Some h1)
                            in (case h2 of
                                  None \<Rightarrow> None
                                | Some h2 \<Rightarrow> Some (h2, result))))))))"

section \<open>Token accounting (computePreviewMetadata)\<close>

text \<open>
  Text is a list of bytes, the UTF-8 encoding of the JavaScript string, so that
  \<open>new TextEncoder().encode(content).length\<close> is \<open>length\<close>; the line separator is the
  byte \<open>0x0A\<close>, which occurs in no multi-byte sequence.
\<close>

definition newline :: char where
  "newline = CHR 0x0A"

text \<open>\<open>content.split('\n')\<close>: never empty, \<open>''\<close> splits into \<open>['']\<close>.\<close>

fun split_lines :: "string \<Rightarrow> string list" where
  "split_lines [] = [[]]"
| "split_lines (c # cs) =
     (if c = newline then [] # split_lines cs
      else (case split_lines cs of
              [] \<Rightarrow> [[c]]
            | l # ls \<Rightarrow> (c # l) # ls))"

text \<open>\<open>lines.join('\n')\<close>\<close>

fun join_lines :: "string list \<Rightarrow> string" where
  "join_lines [] = []"
| "join_lines [l] = l"
| "join_lines (l # ls) = l @ newline # join_lines ls"

datatype tokenizer = TkDefault | TkDeepseek

text \<open>The string a value of the type \<open>'default' | 'deepseek'\<close> is.\<close>

fun tokenizer_key :: "tokenizer \<Rightarrow> string" where
  "tokenizer_key TkDefault = ''default''"
| "tokenizer_key TkDeepseek = ''deepseek''"

text \<open>The second argument of \<open>estimateTokens\<close>: \<open>undefined\<close> or \<open>{ provider, modelId }\<close>.\<close>

type_synonym model_selector = "(string \<times> string) option"

definition selector_for :: "tokenizer \<Rightarrow> model_selector" where
  "selector_for t = (if t = TkDeepseek then Some ([], ''deepseek'') else None)"

type_synonym token_map = "(string \<times> int) list"

record preview_metadata =
  lineCount :: nat
  byteLength :: nat
  tokenCountMap :: token_map
  tokenCalculatedAt :: "(string \<times> int) list"

text \<open>
  \<open>estimateTokens\<close> (package \<open>token\<close>), \<open>Date.now()\<close> and the constant \<open>PREVIEW_LINES\<close>
  (package \<open>context-management\<close>, a number of lines) are not part of the sources at hand
  and are parameters.
\<close>

definition computePreviewMetadata ::
  "(string \<Rightarrow> model_selector \<Rightarrow> int) \<Rightarrow> int \<Rightarrow> nat \<Rightarrow>
   string \<Rightarrow> tokenizer \<Rightarrow> token_map \<Rightarrow> preview_metadata" where
  "computePreviewMetadata estimateTokens now PREVIEW_LINES content tokenizerType existingTokenMap =
     (let previewContent = join_lines (take PREVIEW_LINES (split_lines content));
          fullKey = tokenizer_key tokenizerType;
          previewKey = tokenizer_key tokenizerType @ ''_preview'';
          absent = (map_of existingTokenMap fullKey = None);
          tokenCountMap =
            (if absent
             then AList.update fullKey (estimateTokens content (selector_for tokenizerType))
                    existingTokenMap
             else existingTokenMap);
          tokenCalculatedAt = (if absent then AList.update fullKey now [] else []);
          tokenCountMap =
            AList.update previewKey (estimateTokens previewContent (selector_for tokenizerType))
              tokenCountMap;
          tokenCalculatedAt = AList.update previewKey now tokenCalculatedAt
      in \<lparr>lineCount = length (split_lines content),
          byteLength = length content,
          tokenCountMap = tokenCountMap,
          tokenCalculatedAt = tokenCalculatedAt\<rparr>)"

section \<open>Content ingestion (preprocessFile)\<close>

subsection \<open>Exceptions, the content store and the collaborators\<close>

text \<open>A thrown value: an \<open>Error\<close> with its message, or a value that is no \<open>Error\<close>.\<close>

datatype exn = Error string | NonError

record File =
  file_name :: string
  file_type :: string
  file_size :: nat

record store =
  blobs :: "(string \<times> string) list"
  items :: "(string \<times> token_map) list"

text \<open>The parser backends; the world records each call to one of them.\<close>

datatype backend = LocalParser | ChatboxAIParser | MineruParser

record world =
  storage :: store
  calls :: "backend list"

text \<open>\<open>platform.parseFileLocally\<close> returns \<open>{ isSupported, key? }\<close>,
  \<open>platform.parseFileWithMineru\<close> returns \<open>{ success, content?, cancelled? }\<close>.\<close>

record local_parse_result =
  isSupported :: bool
  key :: "string option"

record mineru_result =
  success :: bool
  mineru_content :: "string option"
  cancelled :: bool

text \<open>\<open>DocumentParserConfig\<close>: the \<open>type\<close> tag and \<open>mineru?.apiToken\<close>.\<close>

record parser_config =
  parser_type :: string
  mineru_apiToken :: "string option"

text \<open>
  Everything \<open>preprocessFile\<close> calls that is outside the sources at hand: key derivation,
  the text-file test, the settings and model stores, the tokenizer, the platform and
  remote parsers (which write what they parse into the store under a key of their own),
  the constants \<open>TOKEN_CACHE_KEYS\<close>, and for each storage operation the keys at which it
  rejects. The text-file test, the reading of the parser configuration
  (\<open>getEffectiveDocumentParserConfig\<close>), the reading of the tokenizer kind
  (\<open>getCurrentTokenizerType\<close>) and \<open>estimateTokens\<close> are given by the value they return and,
  in a field of their own, the exception they throw instead, if any.
\<close>

record env =
  fileUniqKey :: "File \<Rightarrow> exn + string"
  isTextFilePath :: "string \<Rightarrow> bool"
  isTextFilePath_throws :: "string \<Rightarrow> exn option"
  documentParser :: parser_config
  documentParser_throws :: "exn option"
  currentTokenizerType :: tokenizer
  currentTokenizerType_throws :: "exn option"
  estimateTokens :: "string \<Rightarrow> model_selector \<Rightarrow> int"
  estimateTokens_throws :: "string \<Rightarrow> model_selector \<Rightarrow> exn option"
  now :: int
  PREVIEW_LINES :: nat
  TOKEN_CACHE_KEYS_default :: string
  TOKEN_CACHE_KEYS_deepseek :: string
  licenseKey :: "string option"
  parseFileLocally :: "File \<Rightarrow> store \<Rightarrow> (exn + local_parse_result) \<times> store"
  parseFileWithMineru :: "(File \<Rightarrow> string \<Rightarrow> store \<Rightarrow> (exn + mineru_result) \<times> store) option"
  uploadAndCreateUserFile :: "string \<Rightarrow> File \<Rightarrow> store \<Rightarrow> (exn + string) \<times> store"
  getBlob_rejects :: "string \<Rightarrow> exn option"
  setBlob_rejects :: "string \<Rightarrow> exn option"
  getItem_rejects :: "string \<Rightarrow> exn option"
  setItem_rejects :: "string \<Rightarrow> exn option"

subsection \<open>Sequencing with exceptions\<close>

type_synonym 'a io = "world \<Rightarrow> (exn + 'a) \<times> world"

definition returnE :: "'a \<Rightarrow> 'a io" where
  "returnE a w = (Inr a, w)"

definition throwE :: "exn \<Rightarrow> 'a io" where
  "throwE x w = (Inl x, w)"

definition bindE :: "'a io \<Rightarrow> ('a \<Rightarrow> 'b io) \<Rightarrow> 'b io" where
  "bindE m f w = (case m w of (Inl x, w') \<Rightarrow> (Inl x, w') | (Inr a, w') \<Rightarrow> f a w')"

text \<open>A call that does not touch the world.\<close>

definition liftE :: "exn + 'a \<Rightarrow> 'a io" where
  "liftE r w = (r, w)"

text \<open>\<open>try { m } catch (error) { h(error) }\<close>\<close>

definition catchE :: "'a io \<Rightarrow> (exn \<Rightarrow> 'a io) \<Rightarrow> 'a io" where
  "catchE m h w = (case m w of (Inl x, w') \<Rightarrow> h x w' | (Inr a, w') \<Rightarrow> (Inr a, w'))"

text \<open>A call to a parser backend: it is recorded, and acts on the store.\<close>

definition invoke :: "backend \<Rightarrow> (store \<Rightarrow> (exn + 'a) \<times> store) \<Rightarrow> 'a io" where
  "invoke b ext w =
     (case ext (storage w) of (r, st') \<Rightarrow> (r, \<lparr>storage = st', calls = calls w @ [b]\<rparr>))"

subsection \<open>Storage operations\<close>

definition storage_getBlob :: "env \<Rightarrow> string \<Rightarrow> (string option) io" where
  "storage_getBlob e k w =
     (case getBlob_rejects e k of
        Some x \<Rightarrow> (Inl x, w)
      | None \<Rightarrow> (Inr (map_of (blobs (storage w)) k), w))"

definition storage_setBlob :: "env \<Rightarrow> string \<Rightarrow> string \<Rightarrow> unit io" where
  "storage_setBlob e k v w =
     (case setBlob_rejects e k of
        Some x \<Rightarrow> (Inl x, w)
      | None \<Rightarrow>
          (Inr (), w\<lparr>storage := (storage w)\<lparr>blobs := AList.update k v (blobs (storage w))\<rparr>\<rparr>))"

definition storage_getItem :: "env \<Rightarrow> string \<Rightarrow> token_map \<Rightarrow> token_map io" where
  "storage_getItem e k dflt w =
     (case getItem_rejects e k of
        Some x \<Rightarrow> (Inl x, w)
      | None \<Rightarrow>
          (Inr (case map_of (items (storage w)) k of None \<Rightarrow> dflt | Some v \<Rightarrow> v), w))"

definition storage_setItem :: "env \<Rightarrow> string \<Rightarrow> token_map \<Rightarrow> unit io" where
  "storage_setItem e k v w =
     (case setItem_rejects e k of
        Some x \<Rightarrow> (Inl x, w)
      | None \<Rightarrow>
          (Inr (), w\<lparr>storage := (storage w)\<lparr>items := AList.update k v (items (storage w))\<rparr>\<rparr>))"

text \<open>\<open>await storage.getBlob(uniqKey).catch(() => null)\<close>\<close>

definition getBlob_or_null :: "env \<Rightarrow> string \<Rightarrow> (string option) io" where
  "getBlob_or_null e k = catchE (storage_getBlob e k) (\<lambda>_. returnE None)"

text \<open>\<open>(await storage.getBlob(k).catch(() => '')) || ''\<close>\<close>

definition getBlob_or_empty :: "env \<Rightarrow> string \<Rightarrow> string io" where
  "getBlob_or_empty e k =
     bindE (catchE (storage_getBlob e k) (\<lambda>_. returnE (Some [])))
       (\<lambda>r. returnE (case r of None \<Rightarrow> [] | Some c \<Rightarrow> c))"

subsection \<open>Calls that may throw\<close>

text \<open>A call of \<open>estimateTokens\<close>, of \<open>getCurrentTokenizerType\<close>, of
  \<open>getEffectiveDocumentParserConfig\<close> and of \<open>isTextFilePath\<close>: the exception, if the
  environment gives one, the value otherwise.\<close>

definition estimate :: "env \<Rightarrow> string \<Rightarrow> model_selector \<Rightarrow> int io" where
  "estimate e content sel =
     (case estimateTokens_throws e content sel of
        Some x \<Rightarrow> throwE x
      | None \<Rightarrow> returnE (estimateTokens e content sel))"

definition getCurrentTokenizerType :: "env \<Rightarrow> tokenizer io" where
  "getCurrentTokenizerType e =
     (case currentTokenizerType_throws e of
        Some x \<Rightarrow> throwE x
      | None \<Rightarrow> returnE (currentTokenizerType e))"

definition getEffectiveDocumentParserConfig :: "env \<Rightarrow> parser_config io" where
  "getEffectiveDocumentParserConfig e =
     (case documentParser_throws e of
        Some x \<Rightarrow> throwE x
      | None \<Rightarrow> returnE (documentParser e))"

definition isTextFilePath_call :: "env \<Rightarrow> string \<Rightarrow> bool io" where
  "isTextFilePath_call e name =
     (case isTextFilePath_throws e name of
        Some x \<Rightarrow> throwE x
      | None \<Rightarrow> returnE (isTextFilePath e name))"

text \<open>
  The call of \<open>computePreviewMetadata\<close> from \<open>preprocessFile\<close>, with a tokenizer that may
  throw: \<open>estimateTokens\<close> is called on the whole content when the slot is absent, then on
  the preview, in the order of the source; the first exception is thrown, and otherwise the
  result is that of \<open>computePreviewMetadata\<close> with the values the tokenizer returns.
\<close>

definition computePreviewMetadata_call ::
  "env \<Rightarrow> string \<Rightarrow> tokenizer \<Rightarrow> token_map \<Rightarrow> preview_metadata io" where
  "computePreviewMetadata_call e content tokenizerType existingTokenMap =
     bindE (if map_of existingTokenMap (tokenizer_key tokenizerType) = None
            then bindE (estimate e content (selector_for tokenizerType)) (\<lambda>_. returnE ())
            else returnE ())
       (\<lambda>_. bindE (estimate e (join_lines (take (PREVIEW_LINES e) (split_lines content)))
                      (selector_for tokenizerType))
          (\<lambda>_. returnE (computePreviewMetadata (estimateTokens e) (now e) (PREVIEW_LINES e)
                           content tokenizerType existingTokenMap)))"

subsection \<open>The parser backends\<close>

record parse_result =
  parsed_content :: string
  parsed_storageKey :: string
  parsed_tokenCountMap :: token_map

text \<open>The object literal
  \<open>{ [TOKEN_CACHE_KEYS.default]: estimateTokens(content),
     [TOKEN_CACHE_KEYS.deepseek]: estimateTokens(content, { provider: '', modelId: 'deepseek' }) }\<close>\<close>

definition both_token_counts :: "env \<Rightarrow> string \<Rightarrow> token_map io" where
  "both_token_counts e content =
     bindE (estimate e content None)
       (\<lambda>dflt. bindE (estimate e content (Some ([], ''deepseek'')))
          (\<lambda>deepseek. returnE (AList.update (TOKEN_CACHE_KEYS_deepseek e) deepseek
                                 (AList.update (TOKEN_CACHE_KEYS_default e) dflt []))))"

text \<open>The common tail of the local and the cloud parser: store the content under the unique
  key and the token counts beside it, both only when the content is not empty.\<close>

definition store_parsed :: "env \<Rightarrow> string \<Rightarrow> string \<Rightarrow> parse_result io" where
  "store_parsed e uniqKey content =
     bindE (if content \<noteq> [] then storage_setBlob e uniqKey content else returnE ())
       (\<lambda>_. bindE (if content \<noteq> [] then both_token_counts e content else returnE [])
          (\<lambda>tokenCountMap.
             bindE (if content \<noteq> []
                    then storage_setItem e (uniqKey @ ''_tokenMap'') tokenCountMap
                    else returnE ())
               (\<lambda>_. returnE \<lparr>parsed_content = content,
                               parsed_storageKey = uniqKey,
                               parsed_tokenCountMap = tokenCountMap\<rparr>)))"

definition parseFileWithLocalParser :: "env \<Rightarrow> File \<Rightarrow> string \<Rightarrow> parse_result io" where
  "parseFileWithLocalParser e file uniqKey =
     bindE (invoke LocalParser (parseFileLocally e file))
       (\<lambda>result.
          case key result of
            None \<Rightarrow> throwE (Error ''local_parser_failed'')
          | Some k \<Rightarrow>
              if \<not> isSupported result \<or> k = []
              then throwE (Error ''local_parser_failed'')
              else bindE (getBlob_or_empty e k) (store_parsed e uniqKey))"

definition parseFileWithChatboxAI :: "env \<Rightarrow> File \<Rightarrow> string \<Rightarrow> parse_result io" where
  "parseFileWithChatboxAI e file uniqKey =
     bindE (invoke ChatboxAIParser
              (uploadAndCreateUserFile e (case licenseKey e of None \<Rightarrow> [] | Some l \<Rightarrow> l) file))
       (\<lambda>uploadedKey. bindE (getBlob_or_empty e uploadedKey) (store_parsed e uniqKey))"

definition parseFileWithMineruService ::
  "env \<Rightarrow> File \<Rightarrow> string \<Rightarrow> string \<Rightarrow> parse_result io" where
  "parseFileWithMineruService e file uniqKey apiToken =
     (case parseFileWithMineru e of
        None \<Rightarrow> throwE (Error ''third_party_parser_not_supported_in_chat'')
      | Some parse \<Rightarrow>
          bindE (invoke MineruParser (parse file apiToken))
            (\<lambda>result.
               if cancelled result then throwE (Error ''parsing_cancelled'')
               else
                 (case mineru_content result of
                    None \<Rightarrow> throwE (Error ''third_party_parser_failed'')
                  | Some content \<Rightarrow>
                      if \<not> success result \<or> content = []
                      then throwE (Error ''third_party_parser_failed'')
                      else
                        bindE (storage_setBlob e uniqKey content)
                          (\<lambda>_. bindE (both_token_counts e content)
                             (\<lambda>tokenCountMap.
                                bindE (storage_setItem e (uniqKey @ ''_tokenMap'') tokenCountMap)
                                  (\<lambda>_. returnE \<lparr>parsed_content = content,
                                                  parsed_storageKey = uniqKey,
                                                  parsed_tokenCountMap = tokenCountMap\<rparr>))))))"

subsection \<open>preprocessFile\<close>

record preprocessed =
  pre_file :: File
  pre_content :: string
  pre_storageKey :: string
  pre_tokenCountMap :: "token_map option"
  pre_lineCount :: "nat option"
  pre_byteLength :: "nat option"
  pre_error :: "string option"

text \<open>The two successful returns: preview metadata for the content, the extended token map
  persisted under \<open>storageKey_tokenMap\<close>, no \<open>error\<close> field.\<close>

definition finish :: "env \<Rightarrow> File \<Rightarrow> string \<Rightarrow> string \<Rightarrow> token_map \<Rightarrow> preprocessed io" where
  "finish e file content storageKey existingTokenMap =
     bindE (getCurrentTokenizerType e)
       (\<lambda>tokenizerType.
          bindE (computePreviewMetadata_call e content tokenizerType existingTokenMap)
            (\<lambda>md. bindE (storage_setItem e (storageKey @ ''_tokenMap'') (tokenCountMap md))
               (\<lambda>_. returnE \<lparr>pre_file = file,
                               pre_content = content,
                               pre_storageKey = storageKey,
                               pre_tokenCountMap = Some (tokenCountMap md),
                               pre_lineCount = Some (lineCount md),
                               pre_byteLength = Some (byteLength md),
                               pre_error = None\<rparr>)))"

text \<open>The \<open>mineru\<close> arm's handler: an error whose message starts with
  \<open>third_party_parser\<close> is thrown again, every other one is replaced.\<close>

definition mineru_handler :: "exn \<Rightarrow> parse_result io" where
  "mineru_handler error =
     (case error of
        Error msg \<Rightarrow>
          if prefix ''third_party_parser'' msg then throwE error
          else throwE (Error ''third_party_parser_failed'')
      | NonError \<Rightarrow> throwE (Error ''third_party_parser_failed''))"

text \<open>The selection of the backend on a cache miss, for the parser configuration and the
  outcome of the text-file test.\<close>

definition parse_with_backend ::
  "env \<Rightarrow> File \<Rightarrow> string \<Rightarrow> parser_config \<Rightarrow> bool \<Rightarrow> parse_result io" where
  "parse_with_backend e file uniqKey parserConfig isText =
     (if isText
      then catchE (parseFileWithLocalParser e file uniqKey)
             (\<lambda>_. throwE (Error ''local_parser_failed''))
      else if parser_type parserConfig = ''none''
      then throwE (Error ''document_parser_not_configured'')
      else if parser_type parserConfig = ''local''
      then catchE (parseFileWithLocalParser e file uniqKey)
             (\<lambda>_. throwE (Error ''local_parser_failed''))
      else if parser_type parserConfig = ''chatbox-ai''
      then catchE (parseFileWithChatboxAI e file uniqKey)
             (\<lambda>_. throwE (Error ''chatbox_ai_parser_failed''))
      else if parser_type parserConfig = ''mineru''
      then (case mineru_apiToken parserConfig of
              None \<Rightarrow> throwE (Error ''mineru_api_token_required'')
            | Some apiToken \<Rightarrow>
                if apiToken = [] then throwE (Error ''mineru_api_token_required'')
                else catchE (parseFileWithMineruService e file uniqKey apiToken)
                       mineru_handler)
      else throwE (Error ''document_parser_not_configured''))"

text \<open>The cache miss: the configuration is read, the file name is tested, the backend
  parses, and the result is finished.\<close>

definition parse_and_finish :: "env \<Rightarrow> File \<Rightarrow> string \<Rightarrow> preprocessed io" where
  "parse_and_finish e file uniqKey =
     bindE (getEffectiveDocumentParserConfig e)
       (\<lambda>parserConfig.
          bindE (isTextFilePath_call e (file_name file))
            (\<lambda>isText.
               bindE (parse_with_backend e file uniqKey parserConfig isText)
                 (\<lambda>result. finish e file (parsed_content result) (parsed_storageKey result)
                              (parsed_tokenCountMap result))))"

text \<open>The truth value of an optional string, as in \<open>if (existingContent)\<close> and
  \<open>if (sessionId)\<close>: \<open>null\<close>, \<open>undefined\<close> and the empty string count as absent.\<close>

definition truthy :: "string option \<Rightarrow> string option" where
  "truthy r = (case r of None \<Rightarrow> None | Some c \<Rightarrow> if c = [] then None else Some c)"

text \<open>The body of the outer \<open>try\<close>.\<close>

definition preprocessFile_try :: "env \<Rightarrow> File \<Rightarrow> preprocessed io" where
  "preprocessFile_try e file =
     bindE (liftE (fileUniqKey e file))
       (\<lambda>uniqKey.
          bindE (getBlob_or_null e uniqKey)
            (\<lambda>existingContent.
               case truthy existingContent of
                 Some existingContent \<Rightarrow>
                   bindE (storage_getItem e (uniqKey @ ''_tokenMap'') [])
                     (finish e file existingContent uniqKey)
               | None \<Rightarrow> parse_and_finish e file uniqKey))"

text \<open>The outer \<open>catch\<close> turns every exception into a result. The \<open>settings\<close> argument is
  not used by the function. The calls of the logger (\<open>log.debug\<close>, \<open>log.error\<close>) are left
  out: they are taken to return and have no part in the result.\<close>

definition preprocessFile :: "env \<Rightarrow> File \<Rightarrow> 'settings \<Rightarrow> world \<Rightarrow> preprocessed \<times> world" where
  "preprocessFile e file settings w =
     (case preprocessFile_try e file w of
        (Inr r, w') \<Rightarrow> (r, w')
      | (Inl error, w') \<Rightarrow>
          (\<lparr>pre_file = file,
            pre_content = [],
            pre_storageKey = [],
            pre_tokenCountMap = None,
            pre_lineCount = None,
            pre_byteLength = None,
            pre_error = Some (case error of Error msg \<Rightarrow> msg | NonError \<Rightarrow> ''Unknown error'')\<rparr>,
           w'))"

section \<open>Session search (searchSessions)\<close>

text \<open>
  A session holds its live messages and, optionally, archived threads. The message type
  and the functions on it (\<open>getMessageText\<close>, \<open>migrateMessage\<close>, \<open>migrateSession\<close>,
  \<open>sortSessions\<close>) and the session store are outside the sources at hand and are
  parameters. \<open>regexp_test input text\<close> stands for
  \<open>new RegExp(escaped(input), 'i').test(text)\<close>; the pattern has no \<open>g\<close> or \<open>y\<close> flag, so
  \<open>test\<close> keeps no state between calls.
\<close>

record 'm thread =
  thread_id :: string
  thread_name :: string
  thread_messages :: "'m list"
  createdAt :: int

record 'm session =
  session_id :: string
  session_name :: string
  messages :: "'m list"
  threads :: "'m thread list option"

record session_meta =
  meta_id :: string

record 'm search_env =
  regexp_test :: "string \<Rightarrow> string \<Rightarrow> bool"
  getMessageText :: "'m \<Rightarrow> string"
  migrateMessage :: "'m \<Rightarrow> 'm"
  migrateSession :: "'m session \<Rightarrow> 'm session"
  sortSessions :: "session_meta list \<Rightarrow> session_meta list"
  getSession :: "string \<Rightarrow> exn + 'm session option"
  getSessionsList :: "exn + session_meta list"

text \<open>\<open>for (let i = xs.length - 1; i >= 0; i--) if (test xs[i]) matched.push(xs[i])\<close>\<close>

definition matches_backwards :: "'m search_env \<Rightarrow> string \<Rightarrow> 'm list \<Rightarrow> 'm list" where
  "matches_backwards e input xs =
     filter (\<lambda>message. regexp_test e input (getMessageText e message)) (rev xs)"

text \<open>The function \<open>_searchSessions\<close> of the source.\<close>

definition searchSessions_inner :: "'m search_env \<Rightarrow> string \<Rightarrow> 'm session \<Rightarrow> 'm list" where
  "searchSessions_inner e input s =
     (let session = migrateSession e s;
          matchedMessages = matches_backwards e input (messages session);
          matchedMessages =
            (case threads session of
               None \<Rightarrow> matchedMessages
             | Some ths \<Rightarrow>
                 matchedMessages @
                 concat (map (\<lambda>thread. matches_backwards e input (thread_messages thread))
                           (rev ths)))
      in map (migrateMessage e) matchedMessages)"

text \<open>
  The state of one search: the running total, the batches handed to \<open>onResult\<close>, and two
  traces: the ids passed to \<open>storage.getItem\<close> and the sessions found and scanned.
\<close>

record 'm search_state =
  matchedMessageTotal :: nat
  emitted :: "'m session list list"
  requested :: "string list"
  scanned :: "'m session list"

definition search_init :: "'m search_state" where
  "search_init = \<lparr>matchedMessageTotal = 0, emitted = [], requested = [], scanned = []\<rparr>"

text \<open>\<open>emitBatch\<close>: an empty batch is dropped; \<open>onResult?.(batch)\<close> calls the callback when
  one was passed (\<open>hasCallback\<close>).\<close>

definition emitBatch :: "bool \<Rightarrow> 'm session list \<Rightarrow> 'm search_state \<Rightarrow> 'm search_state" where
  "emitBatch hasCallback batch st =
     (if length batch = 0 then st
      else if hasCallback then st\<lparr>emitted := emitted st @ [batch]\<rparr>
      else st)"

text \<open>The loop over the sorted session list; \<open>Some x\<close> in the first component is an
  exception of \<open>storage.getItem\<close>, which nothing in \<open>searchSessions\<close> catches.\<close>

fun search_loop ::
  "'m search_env \<Rightarrow> string \<Rightarrow> bool \<Rightarrow> session_meta list \<Rightarrow> 'm search_state \<Rightarrow>
   exn option \<times> 'm search_state" where
  "search_loop e input hasCallback [] st = (None, st)"
| "search_loop e input hasCallback (sessionMeta # rest) st =
     (let st = st\<lparr>requested := requested st @ [meta_id sessionMeta]\<rparr>
      in case getSession e (meta_id sessionMeta) of
           Inl x \<Rightarrow> (Some x, st)
         | Inr None \<Rightarrow> search_loop e input hasCallback rest st
         | Inr (Some session) \<Rightarrow>
             (let msgs = searchSessions_inner e input session;
                  st = st\<lparr>scanned := scanned st @ [session]\<rparr>;
                  st = (if 0 < length msgs
                        then emitBatch hasCallback [session\<lparr>messages := msgs\<rparr>]
                               (st\<lparr>matchedMessageTotal := matchedMessageTotal st + length msgs\<rparr>)
                        else st)
              in if 50 \<le> matchedMessageTotal st then (None, st)
                 else search_loop e input hasCallback rest st))"

text \<open>\<open>searchSessions(searchInput, sessionId?, onResult?)\<close>. The test \<open>if (sessionId)\<close>
  takes the single-session path for a string that is not empty.\<close>

definition searchSessions ::
  "'m search_env \<Rightarrow> string \<Rightarrow> string option \<Rightarrow> bool \<Rightarrow> exn option \<times> 'm search_state" where
  "searchSessions e searchInput sessionId hasCallback =
     (case truthy sessionId of
        Some sid \<Rightarrow>
          (let st = search_init\<lparr>requested := [sid]\<rparr>
           in case getSession e sid of
                Inl x \<Rightarrow> (Some x, st)
              | Inr None \<Rightarrow> (None, st)
              | Inr (Some session) \<Rightarrow>
                  (let matchedMessages = searchSessions_inner e searchInput session;
                       st = st\<lparr>scanned := [session],
                               matchedMessageTotal :=
                                 matchedMessageTotal st + length matchedMessages\<rparr>
                   in (None, emitBatch hasCallback [session\<lparr>messages := matchedMessages\<rparr>] st)))
      | None \<Rightarrow>
          (case getSessionsList e of
             Inl x \<Rightarrow> (Some x, search_init)
           | Inr sessionsList \<Rightarrow>
               search_loop e searchInput hasCallback (sortSessions e sessionsList) search_init))"

section \<open>Notions used in the statements\<close>

text \<open>What the lookup of the cache sees: the blob under the key, unless the read rejects or
  the blob is empty.\<close>

definition cache_lookup :: "env \<Rightarrow> string \<Rightarrow> world \<Rightarrow> string option" where
  "cache_lookup e k w =
     truthy (case getBlob_rejects e k of
               None \<Rightarrow> map_of (blobs (storage w)) k
             | Some _ \<Rightarrow> None)"

text \<open>\<open>error instanceof Error ? error.message : 'Unknown error'\<close>, and the result the outer
  \<open>catch\<close> of \<open>preprocessFile\<close> returns for a thrown value.\<close>

definition message_of :: "exn \<Rightarrow> string" where
  "message_of error = (case error of Error msg \<Rightarrow> msg | NonError \<Rightarrow> ''Unknown error'')"

definition error_result :: "File \<Rightarrow> exn \<Rightarrow> preprocessed" where
  "error_result file error =
     \<lparr>pre_file = file, pre_content = [], pre_storageKey = [],
      pre_tokenCountMap = None, pre_lineCount = None, pre_byteLength = None,
      pre_error = Some (message_of error)\<rparr>"

text \<open>The exception the token computation of \<open>computePreviewMetadata\<close> throws, if any: that
  of the count of the whole content when the slot is absent, else that of the count of the
  preview.\<close>

definition preview_throws :: "env \<Rightarrow> string \<Rightarrow> tokenizer \<Rightarrow> token_map \<Rightarrow> exn option" where
  "preview_throws e content t existingTokenMap =
     (case (if map_of existingTokenMap (tokenizer_key t) = None
            then estimateTokens_throws e content (selector_for t) else None) of
        Some x \<Rightarrow> Some x
      | None \<Rightarrow>
          estimateTokens_throws e (join_lines (take (PREVIEW_LINES e) (split_lines content)))
            (selector_for t))"

text \<open>The exception the last steps of \<open>preprocessFile\<close> throw, if any: reading the tokenizer
  kind, the token computation, persisting the token map, in this order.\<close>

definition finish_throws :: "env \<Rightarrow> string \<Rightarrow> string \<Rightarrow> token_map \<Rightarrow> exn option" where
  "finish_throws e content storageKey existingTokenMap =
     (case currentTokenizerType_throws e of
        Some x \<Rightarrow> Some x
      | None \<Rightarrow>
          (case preview_throws e content (currentTokenizerType e) existingTokenMap of
             Some x \<Rightarrow> Some x
           | None \<Rightarrow> setItem_rejects e (storageKey @ ''_tokenMap'')))"

text \<open>The token map stored beside a key, \<open>{}\<close> when there is none.\<close>

definition stored_token_map :: "world \<Rightarrow> string \<Rightarrow> token_map" where
  "stored_token_map w k =
     (case map_of (items (storage w)) (k @ ''_tokenMap'') of None \<Rightarrow> [] | Some m \<Rightarrow> m)"


text \<open>The batch emitted for a session, whether a session has a match, and the number of
  matches in a list of sessions.\<close>

definition session_batch :: "'m search_env \<Rightarrow> string \<Rightarrow> 'm session \<Rightarrow> 'm session list" where
  "session_batch e input s = [s\<lparr>messages := searchSessions_inner e input s\<rparr>]"

definition has_match :: "'m search_env \<Rightarrow> string \<Rightarrow> 'm session \<Rightarrow> bool" where
  "has_match e input s \<longleftrightarrow> searchSessions_inner e input s \<noteq> []"

definition match_count :: "'m search_env \<Rightarrow> string \<Rightarrow> 'm session list \<Rightarrow> nat" where
  "match_count e input ss = sum_list (map (\<lambda>s. length (searchSessions_inner e input s)) ss)"

text \<open>The effect of scanning one stored session on the state of the search.\<close>

definition scan_step ::
  "'m search_env \<Rightarrow> string \<Rightarrow> string \<Rightarrow> 'm session \<Rightarrow> 'm search_state \<Rightarrow> 'm search_state" where
  "scan_step e input sid s st =
     st\<lparr>requested := requested st @ [sid],
        scanned := scanned st @ [s],
        matchedMessageTotal := matchedMessageTotal st + length (searchSessions_inner e input s),
        emitted := emitted st @ (if has_match e input s then [session_batch e input s] else [])\<rparr>"

text \<open>The sessions of a list of metas that the store holds, and the threads of a session
  (none when the field is absent).\<close>

definition stored_sessions :: "'m search_env \<Rightarrow> session_meta list \<Rightarrow> 'm session list" where
  "stored_sessions e metas =
     List.map_filter
       (\<lambda>m. case getSession e (meta_id m) of Inr (Some s) \<Rightarrow> Some s | _ \<Rightarrow> None) metas"

definition all_threads :: "'m session \<Rightarrow> 'm thread list" where
  "all_threads s = (case threads s of None \<Rightarrow> [] | Some ths \<Rightarrow> ths)"

text \<open>Whether the load of a listed session returns; the sorted list of a search without a
  session id (empty when the list does not load); and the sessions the store returns for
  it before the first load that rejects.\<close>

definition loads :: "'m search_env \<Rightarrow> session_meta \<Rightarrow> bool" where
  "loads e m = (case getSession e (meta_id m) of Inl _ \<Rightarrow> False | Inr _ \<Rightarrow> True)"

definition listed_metas :: "'m search_env \<Rightarrow> session_meta list" where
  "listed_metas e = (case getSessionsList e of Inl _ \<Rightarrow> [] | Inr l \<Rightarrow> sortSessions e l)"

definition reachable_sessions :: "'m search_env \<Rightarrow> 'm session list" where
  "reachable_sessions e = stored_sessions e (takeWhile (loads e) (listed_metas e))"

text \<open>The sessions of a list up to and including the first at which the running total of
  matches, started at \<open>n\<close>, reaches 50.\<close>

fun cap_prefix :: "'m search_env \<Rightarrow> string \<Rightarrow> nat \<Rightarrow> 'm session list \<Rightarrow> 'm session list" where
  "cap_prefix e input n [] = []"
| "cap_prefix e input n (s # ss) =
     (if 50 \<le> n + length (searchSessions_inner e input s) then [s]
      else s # cap_prefix e input (n + length (searchSessions_inner e input s)) ss)"

section \<open>Concrete inputs\<close>

text \<open>A prompt with two system messages, of which the third message already carries a
  marker when it reaches the planner.\<close>

definition marked_prompt :: "message list" where
  "marked_prompt =
     [\<lparr>role = System, msg_content = JStr ''a'', providerOptions = None\<rparr>,
      \<lparr>role = System, msg_content = JStr ''b'', providerOptions = None\<rparr>,
      \<lparr>role = User, msg_content = JStr ''c'',
        providerOptions = Some [(''anthropic'', [(''cacheControl'', CACHE_CONTROL)])]\<rparr>,
      \<lparr>role = Assistant, msg_content = JStr ''d'', providerOptions = None\<rparr>,
      \<lparr>role = User, msg_content = JStr ''e'', providerOptions = None\<rparr>]"

text \<open>The input of the second step of a tool-use exchange.\<close>

definition tool_step_prompt :: "message list" where
  "tool_step_prompt =
     [\<lparr>role = System, msg_content = JStr ''sys'', providerOptions = None\<rparr>,
      \<lparr>role = User, msg_content = JStr ''question'', providerOptions = None\<rparr>,
      \<lparr>role = Assistant, msg_content = JStr ''tool-call'', providerOptions = None\<rparr>]"

text \<open>A message with options of two providers.\<close>

definition options_message :: message where
  "options_message =
     \<lparr>role = User, msg_content = JStr ''hi'',
      providerOptions = Some [(''openai'', [(''user'', JStr ''u1'')]),
                              (''anthropic'', [(''sendReasoning'', JBool True)])]\<rparr>"

text \<open>A store holding the three messages of \<open>tool_step_prompt\<close> and, at address 3, the
  array of their addresses; and a store holding an empty array.\<close>

definition tool_step_heap :: heap where
  "tool_step_heap =
     [Msg (tool_step_prompt ! 0), Msg (tool_step_prompt ! 1), Msg (tool_step_prompt ! 2),
      Arr [0, 1, 2]]"

definition empty_prompt_heap :: heap where
  "empty_prompt_heap = [Arr []]"

text \<open>A content of three lines, and a tokenizer that counts bytes.\<close>

definition three_lines :: string where
  "three_lines = [CHR ''a'', newline, CHR ''b'', CHR ''c'', newline, CHR ''d'']"

definition count_bytes :: "string \<Rightarrow> model_selector \<Rightarrow> int" where
  "count_bytes text sel = int (length text)"

text \<open>Two files, a document and a text file.\<close>

definition report_pdf :: File where
  "report_pdf = \<lparr>file_name = ''report.pdf'', file_type = ''application/pdf'', file_size = 2048\<rparr>"

definition notes_txt :: File where
  "notes_txt = \<lparr>file_name = ''notes.txt'', file_type = ''text/plain'', file_size = 6\<rparr>"

text \<open>Collaborators: a MinerU parse the user cancels, a local parser that writes three lines under a temporary key, an upload that fails, and storage operations that never reject.\<close>

definition mineru_cancels :: "File \<Rightarrow> string \<Rightarrow> store \<Rightarrow> (exn + mineru_result) \<times> store" where
  "mineru_cancels file apiToken st =
     (Inr \<lparr>success = False, mineru_content = None, cancelled = True\<rparr>, st)"

definition local_parses :: "File \<Rightarrow> store \<Rightarrow> (exn + local_parse_result) \<times> store" where
  "local_parses file st =
     (Inr \<lparr>isSupported = True, key = Some ''tmp''\<rparr>,
      st\<lparr>blobs := AList.update ''tmp'' three_lines (blobs st)\<rparr>)"

definition upload_fails :: "string \<Rightarrow> File \<Rightarrow> store \<Rightarrow> (exn + string) \<times> store" where
  "upload_fails license file st = (Inl (Error ''network''), st)"

definition never :: "string \<Rightarrow> exn option" where
  "never k = None"

text \<open>An environment with the MinerU backend configured with a token.\<close>

definition mineru_env :: env where
  "mineru_env =
     \<lparr>fileUniqKey = (\<lambda>f. Inr (''file:'' @ file_name f)),
      isTextFilePath = (\<lambda>n. n = ''notes.txt''),
      isTextFilePath_throws = never,
      documentParser = \<lparr>parser_type = ''mineru'', mineru_apiToken = Some ''token''\<rparr>,
      documentParser_throws = None,
      currentTokenizerType = TkDefault,
      currentTokenizerType_throws = None,
      estimateTokens = count_bytes,
      estimateTokens_throws = (\<lambda>content sel. None),
      now = 1000,
      PREVIEW_LINES = 2,
      TOKEN_CACHE_KEYS_default = ''default'',
      TOKEN_CACHE_KEYS_deepseek = ''deepseek'',
      licenseKey = None,
      parseFileLocally = local_parses,
      parseFileWithMineru = Some mineru_cancels,
      uploadAndCreateUserFile = upload_fails,
      getBlob_rejects = never,
      setBlob_rejects = never,
      getItem_rejects = never,
      setItem_rejects = never\<rparr>"

text \<open>An empty store, and one that holds the parsed text file and its token map.\<close>

definition empty_world :: world where
  "empty_world = \<lparr>storage = \<lparr>blobs = [], items = []\<rparr>, calls = []\<rparr>"

definition cached_world :: world where
  "cached_world =
     \<lparr>storage = \<lparr>blobs = [(''file:notes.txt'', three_lines)],
                 items = [(''file:notes.txt_tokenMap'', [(''default'', 6), (''deepseek'', 5)])]\<rparr>,
      calls = []\<rparr>"

text \<open>The same environment with a \<open>storage.setItem\<close> that rejects with an \<open>Error\<close> of empty
  message, with a tokenizer that throws, and with a \<open>storage.getBlob\<close> that rejects for the
  key of the text file.\<close>

definition silent_failure_env :: env where
  "silent_failure_env = mineru_env\<lparr>setItem_rejects := (\<lambda>k. Some (Error []))\<rparr>"

definition tokenizer_fails_env :: env where
  "tokenizer_fails_env =
     mineru_env\<lparr>estimateTokens_throws := (\<lambda>content sel. Some (Error ''tokenizer crashed''))\<rparr>"

definition unreadable_env :: env where
  "unreadable_env =
     mineru_env\<lparr>getBlob_rejects :=
       (\<lambda>k. if k = ''file:notes.txt'' then Some (Error ''read failed'') else None)\<rparr>"

text \<open>A literal, case-sensitive substring test, standing in for the regular expression
  in the concrete searches below.\<close>

fun contains :: "string \<Rightarrow> string \<Rightarrow> bool" where
  "contains p [] \<longleftrightarrow> p = []"
| "contains p (c # cs) \<longleftrightarrow> prefix p (c # cs) \<or> contains p cs"

text \<open>Scenario D of the specification: three sessions, of which only the second holds
  messages that match \<open>errorXYZ\<close>, two live ones and one in an archived thread.\<close>

definition session1 :: "string session" where
  "session1 = \<lparr>session_id = ''s1'', session_name = ''first'',
               messages = [''hello'', ''world''], threads = None\<rparr>"

definition session2 :: "string session" where
  "session2 = \<lparr>session_id = ''s2'', session_name = ''second'',
               messages = [''first errorXYZ'', ''nothing'', ''errorXYZ again''],
               threads = Some [\<lparr>thread_id = ''t1'', thread_name = ''archived'',
                                thread_messages = [''old errorXYZ'', ''fine''],
                                createdAt = 1\<rparr>]\<rparr>"

definition session3 :: "string session" where
  "session3 = \<lparr>session_id = ''s3'', session_name = ''third'',
               messages = [''bye''], threads = Some []\<rparr>"

definition scenario_env :: "string search_env" where
  "scenario_env =
     \<lparr>regexp_test = contains,
      getMessageText = (\<lambda>m. m),
      migrateMessage = (\<lambda>m. m),
      migrateSession = (\<lambda>s. s),
      sortSessions = (\<lambda>l. l),
      getSession = (\<lambda>i. if i = ''s1'' then Inr (Some session1)
                         else if i = ''s2'' then Inr (Some session2)
                         else if i = ''s3'' then Inr (Some session3)
                         else Inr None),
      getSessionsList = Inr [\<lparr>meta_id = ''s1''\<rparr>, \<lparr>meta_id = ''s2''\<rparr>, \<lparr>meta_id = ''s3''\<rparr>]\<rparr>"

text \<open>Three sessions with 48, 5 and 1 matches of \<open>err\<close>.\<close>

definition session_a :: "string session" where
  "session_a = \<lparr>session_id = ''a'', session_name = ''a'',
                messages = replicate 48 ''err'', threads = None\<rparr>"

definition session_b :: "string session" where
  "session_b = \<lparr>session_id = ''b'', session_name = ''b'',
                messages = replicate 5 ''err'', threads = None\<rparr>"

definition session_c :: "string session" where
  "session_c = \<lparr>session_id = ''c'', session_name = ''c'',
                messages = [''err''], threads = None\<rparr>"

definition cap_env :: "string search_env" where
  "cap_env =
     \<lparr>regexp_test = contains,
      getMessageText = (\<lambda>m. m),
      migrateMessage = (\<lambda>m. m),
      migrateSession = (\<lambda>s. s),
      sortSessions = (\<lambda>l. l),
      getSession = (\<lambda>i. if i = ''a'' then Inr (Some session_a)
                         else if i = ''b'' then Inr (Some session_b)
                         else if i = ''c'' then Inr (Some session_c)
                         else Inr None),
      getSessionsList = Inr [\<lparr>meta_id = ''a''\<rparr>, \<lparr>meta_id = ''b''\<rparr>, \<lparr>meta_id = ''c''\<rparr>]\<rparr>"

text \<open>The environment of scenario D with a load of the first session that rejects; with a
  second session of 60 matches; and with only the first session listed.\<close>

definition failing_load_env :: "string search_env" where
  "failing_load_env =
     scenario_env\<lparr>getSession :=
       (\<lambda>i. if i = ''s1'' then Inl (Error ''boom'') else getSession scenario_env i)\<rparr>"

definition session_big :: "string session" where
  "session_big = \<lparr>session_id = ''big'', session_name = ''big'',
                  messages = replicate 60 ''errorXYZ'', threads = None\<rparr>"

definition big_env :: "string search_env" where
  "big_env =
     scenario_env\<lparr>getSession :=
         (\<lambda>i. if i = ''big'' then Inr (Some session_big) else getSession scenario_env i),
       getSessionsList := Inr [\<lparr>meta_id = ''s1''\<rparr>, \<lparr>meta_id = ''big''\<rparr>, \<lparr>meta_id = ''s3''\<rparr>]\<rparr>"

definition lonely_env :: "string search_env" where
  "lonely_env = scenario_env\<lparr>getSessionsList := Inr [\<lparr>meta_id = ''s1''\<rparr>]\<rparr>"

section \<open>Properties of the planner\<close>

lemma map_of_update_same: "map_of (AList.update k v al) k = Some v"
  by (simp add: update_conv')

lemma map_of_update_other: "k' \<noteq> k \<Longrightarrow> map_of (AList.update k v al) k' = map_of al k'"
  by (simp add: update_conv')

lemma provider_option_withCache_other:
  "k \<noteq> ''anthropic'' \<Longrightarrow> provider_option (withCache m) k = provider_option m k"
  by (simp add: provider_option_def withCache_def options_of_def map_of_update_other
      split: option.splits)

lemma provider_option_withCache_anthropic:
  "provider_option (withCache m) ''anthropic'' =
     Some (AList.update ''cacheControl'' CACHE_CONTROL (anthropic_of m))"
  by (simp add: provider_option_def withCache_def map_of_update_same)

lemma anthropic_option_eq: "anthropic_option m k = map_of (anthropic_of m) k"
  by (simp add: anthropic_option_def provider_option_def anthropic_of_def split: option.splits)

lemma carries_marker_withCache: "carries_marker (withCache m)"
  by (simp add: carries_marker_def anthropic_option_def provider_option_withCache_anthropic
      map_of_update_same)

lemma findIndex_ge: "- 1 \<le> findIndex P xs"
  by (induction xs) (auto simp: Let_def)

lemma findIndex_none: "findIndex P xs = - 1 \<longleftrightarrow> (\<forall>x\<in>set xs. \<not> P x)"
proof (induction xs)
  case Nil
  show ?case by simp
next
  case (Cons x xs)
  have "- 1 \<le> findIndex P xs" by (rule findIndex_ge)
  with Cons show ?case by (auto simp: Let_def)
qed

lemma findIndex_found:
  "findIndex P xs \<noteq> - 1 \<Longrightarrow>
     0 \<le> findIndex P xs \<and> findIndex P xs < int (length xs) \<and> P (xs ! nat (findIndex P xs)) \<and>
     (\<forall>j<nat (findIndex P xs). \<not> P (xs ! j))"
proof (induction xs)
  case Nil
  then show ?case by simp
next
  case (Cons x xs)
  show ?case
  proof (cases "P x")
    case True
    then show ?thesis by simp
  next
    case False
    with Cons.prems have ne: "findIndex P xs \<noteq> - 1" by (auto simp: Let_def split: if_splits)
    from Cons.IH [OF ne] have ih: "0 \<le> findIndex P xs" "findIndex P xs < int (length xs)"
      "P (xs ! nat (findIndex P xs))" "\<forall>j<nat (findIndex P xs). \<not> P (xs ! j)" by auto
    from False ne have eq: "findIndex P (x # xs) = findIndex P xs + 1" by (simp add: Let_def)
    from ih(1) have n: "nat (findIndex P xs + 1) = Suc (nat (findIndex P xs))" by simp
    show ?thesis unfolding eq n using ih False
      by (auto simp: less_Suc_eq_0_disj)
  qed
qed

lemma injectCacheControl_length: "length (injectCacheControl prompt) = length prompt"
  by (simp add: injectCacheControl_def Let_def)

lemma injectCacheControl_nth:
  assumes "i < length prompt"
  shows "injectCacheControl prompt ! i =
     (if int i = findIndex is_system prompt \<or> (3 \<le> length prompt \<and> i = length prompt - 2)
      then withCache (prompt ! i) else prompt ! i)"
proof (cases "findIndex is_system prompt = - 1")
  case True
  with assms show ?thesis
    by (simp add: injectCacheControl_def Let_def nth_list_update)
next
  case False
  from findIndex_found [OF False] obtain k where k: "findIndex is_system prompt = int k" "k < length prompt"
    by (metis nat_int zless_nat_eq_int_zless nat_0_le)
  have neq: "int (length prompt) - 2 \<noteq> int k \<longleftrightarrow> length prompt - 2 \<noteq> k" if "3 \<le> length prompt"
    using that by linarith
  have n2: "nat (int (length prompt) - 2) = length prompt - 2" by simp
  from assms k show ?thesis
    unfolding injectCacheControl_def Let_def k(1)
    by (auto simp: nth_list_update neq n2 simp del: of_nat_diff)
qed

lemma filter_upt_eq: "filter (\<lambda>i. i = k) [0..<n] = (if k < n then [k] else [])"
  by (induction n) auto

lemma carries_marker_nth:
  assumes "i < length prompt" "\<forall>m\<in>set prompt. \<not> carries_marker m"
  shows "carries_marker (injectCacheControl prompt ! i) \<longleftrightarrow>
     int i = findIndex is_system prompt \<or> (3 \<le> length prompt \<and> i = length prompt - 2)"
proof -
  from assms have "\<not> carries_marker (prompt ! i)" by simp
  with assms(1) show ?thesis
    by (simp add: injectCacheControl_nth carries_marker_withCache)
qed

lemma marked_unmarked_input:
  assumes "\<forall>m\<in>set prompt. \<not> carries_marker m"
  shows "marked (injectCacheControl prompt) =
     filter (\<lambda>i. int i = findIndex is_system prompt \<or> (3 \<le> length prompt \<and> i = length prompt - 2))
       [0..<length prompt]"
  unfolding marked_def injectCacheControl_length
  by (rule filter_cong) (simp_all add: carries_marker_nth [OF _ assms])

lemma length_filter_two: "length (filter (\<lambda>i. i = a \<or> Q \<and> i = b) [0..<n]) \<le> 2"
proof -
  have "length (filter (\<lambda>i. i = a \<or> Q \<and> i = b) [0..<n]) =
        card {i. i < n \<and> (i = a \<or> Q \<and> i = b)}"
    unfolding length_filter_conv_card
    by (rule arg_cong [where f = card]) auto
  also have "\<dots> \<le> card {a, b}"
    by (rule card_mono) auto
  also have "\<dots> \<le> 2" by (simp add: card_insert_le_m1)
  finally show ?thesis .
qed

text \<open>
  Claim C1, as the planner does it. For every prompt: the empty prompt is returned as it
  is; the output has the length of the input; \<open>s\<close>, the index \<open>findIndex\<close> returns, is
  \<open>-1\<close> exactly when no message has the role \<open>system\<close>, and otherwise it is the index of
  the first such message, which carries a CacheMarker in the output; when the prompt has
  at least three messages and \<open>length - 2\<close> is not \<open>s\<close>, the message at \<open>length - 2\<close> carries
  a marker; every other position holds the input message unchanged. Hence, when no
  message of the input carries a marker, the marked positions of the output are exactly
  \<open>s\<close> (if there is a system message) and \<open>length - 2\<close> (if the length is at least 3), at
  most two; a prompt of length 1 or 2 has only the system marker; a prompt without a
  system message has at most the one at \<open>length - 2\<close>.
\<close>

theorem injectCacheControl_markers:
  fixes prompt :: "message list"
  defines "out \<equiv> injectCacheControl prompt"
    and "n \<equiv> length prompt"
    and "s \<equiv> findIndex is_system prompt"
  shows "(prompt = [] \<longrightarrow> out = prompt) \<and>
    length out = n \<and>
    (s = - 1 \<longleftrightarrow> (\<forall>m\<in>set prompt. role m \<noteq> System)) \<and>
    (s \<noteq> - 1 \<longrightarrow>
       0 \<le> s \<and> s < int n \<and> role (prompt ! nat s) = System \<and>
       (\<forall>j<nat s. role (prompt ! j) \<noteq> System) \<and> carries_marker (out ! nat s)) \<and>
    (3 \<le> n \<and> int n - 2 \<noteq> s \<longrightarrow> carries_marker (out ! (n - 2))) \<and>
    (\<forall>i<n. int i \<noteq> s \<and> \<not> (3 \<le> n \<and> i = n - 2) \<longrightarrow> out ! i = prompt ! i) \<and>
    ((\<forall>m\<in>set prompt. \<not> carries_marker m) \<longrightarrow>
       set (marked out) = {i. i < n \<and> (int i = s \<or> (3 \<le> n \<and> i = n - 2))} \<and>
       length (marked out) \<le> 2 \<and>
       (n \<le> 2 \<longrightarrow> marked out = (if s = - 1 then [] else [nat s])) \<and>
       (s = - 1 \<longrightarrow> marked out = (if 3 \<le> n then [n - 2] else [])))"
proof -
  have c1: "prompt = [] \<longrightarrow> out = prompt"
    by (simp add: out_def injectCacheControl_def)
  have c2: "length out = n"
    by (simp add: out_def n_def injectCacheControl_length)
  have c3: "s = - 1 \<longleftrightarrow> (\<forall>m\<in>set prompt. role m \<noteq> System)"
    by (simp add: s_def findIndex_none is_system_def)
  have found: "0 \<le> s \<and> s < int n \<and> is_system (prompt ! nat s) \<and> (\<forall>j<nat s. \<not> is_system (prompt ! j))"
    if "s \<noteq> - 1"
    using that findIndex_found [of is_system prompt] by (simp add: s_def n_def)
  have c4: "s \<noteq> - 1 \<longrightarrow>
       0 \<le> s \<and> s < int n \<and> role (prompt ! nat s) = System \<and>
       (\<forall>j<nat s. role (prompt ! j) \<noteq> System) \<and> carries_marker (out ! nat s)"
  proof
    assume ne: "s \<noteq> - 1"
    from found [OF ne] have lt: "nat s < length prompt" and s0: "int (nat s) = s"
      unfolding n_def by linarith+
    have "out ! nat s = withCache (prompt ! nat s)"
      unfolding out_def using injectCacheControl_nth [OF lt] s0 by (simp add: s_def)
    with found [OF ne] show "0 \<le> s \<and> s < int n \<and> role (prompt ! nat s) = System \<and>
       (\<forall>j<nat s. role (prompt ! j) \<noteq> System) \<and> carries_marker (out ! nat s)"
      by (simp add: is_system_def carries_marker_withCache)
  qed
  have c5: "3 \<le> n \<and> int n - 2 \<noteq> s \<longrightarrow> carries_marker (out ! (n - 2))"
  proof
    assume a: "3 \<le> n \<and> int n - 2 \<noteq> s"
    then have lt: "n - 2 < length prompt" unfolding n_def by linarith
    have "out ! (n - 2) = withCache (prompt ! (n - 2))"
      unfolding out_def using injectCacheControl_nth [OF lt] a by (simp add: n_def)
    then show "carries_marker (out ! (n - 2))" by (simp add: carries_marker_withCache)
  qed
  have c6: "\<forall>i<n. int i \<noteq> s \<and> \<not> (3 \<le> n \<and> i = n - 2) \<longrightarrow> out ! i = prompt ! i"
    by (simp add: out_def n_def s_def injectCacheControl_nth)
  have c7: "set (marked out) = {i. i < n \<and> (int i = s \<or> (3 \<le> n \<and> i = n - 2))} \<and>
       length (marked out) \<le> 2 \<and>
       (n \<le> 2 \<longrightarrow> marked out = (if s = - 1 then [] else [nat s])) \<and>
       (s = - 1 \<longrightarrow> marked out = (if 3 \<le> n then [n - 2] else []))"
    if un: "\<forall>m\<in>set prompt. \<not> carries_marker m"
  proof -
    have m: "marked out = filter (\<lambda>i. int i = s \<or> (3 \<le> n \<and> i = n - 2)) [0..<n]"
      unfolding out_def s_def n_def by (rule marked_unmarked_input [OF un])
    have ge: "- 1 \<le> s" unfolding s_def by (rule findIndex_ge)
    have conv: "(\<lambda>i. int i = s \<or> (3 \<le> n \<and> i = n - 2)) =
                (\<lambda>i. i = nat s \<and> s \<noteq> - 1 \<or> (3 \<le> n \<and> i = n - 2))"
      using ge by (auto simp: fun_eq_iff)
    have s1: "set (marked out) = {i. i < n \<and> (int i = s \<or> (3 \<le> n \<and> i = n - 2))}"
      unfolding m by auto
    have s2: "length (marked out) \<le> 2"
    proof (cases "s = - 1")
      case True
      then have "marked out = filter (\<lambda>i. i = n - 2 \<or> False \<and> i = 0) (if 3 \<le> n then [0..<n] else [])"
        unfolding m by (auto intro: filter_cong)
      then show ?thesis using length_filter_two [of "n - 2" False 0 n] by (simp split: if_splits)
    next
      case False
      with ge have "marked out = filter (\<lambda>i. i = nat s \<or> 3 \<le> n \<and> i = n - 2) [0..<n]"
        unfolding m by (auto intro!: filter_cong)
      then show ?thesis using length_filter_two [of "nat s" "3 \<le> n" "n - 2" n] by simp
    qed
    have s3: "n \<le> 2 \<longrightarrow> marked out = (if s = - 1 then [] else [nat s])"
    proof
      assume n2: "n \<le> 2"
      show "marked out = (if s = - 1 then [] else [nat s])"
      proof (cases "s = - 1")
        case True
        with n2 show ?thesis unfolding m by (auto simp: filter_empty_conv)
      next
        case False
        from found [OF False] have "nat s < n" by linarith
        moreover from n2 False ge have "marked out = filter (\<lambda>i. i = nat s) [0..<n]"
          unfolding m by (auto intro!: filter_cong)
        ultimately show ?thesis using False by (simp add: filter_upt_eq)
      qed
    qed
    have s4: "s = - 1 \<longrightarrow> marked out = (if 3 \<le> n then [n - 2] else [])"
    proof
      assume sn: "s = - 1"
      show "marked out = (if 3 \<le> n then [n - 2] else [])"
      proof (cases "3 \<le> n")
        case True
        with sn have "marked out = filter (\<lambda>i. i = n - 2) [0..<n]"
          unfolding m by (auto intro!: filter_cong)
        with True show ?thesis by (simp add: filter_upt_eq)
      next
        case False
        with sn show ?thesis unfolding m by (auto simp: filter_empty_conv)
      qed
    qed
    from s1 s2 s3 s4 show ?thesis by blast
  qed
  from c1 c2 c3 c4 c5 c6 c7 show ?thesis by blast
qed

lemma upt5: "[0..<5] = [0, 1, 2, 3, 4]"
  by (simp add: upt_rec)

text \<open>
  Claim C1 as stated fails on \<open>marked_prompt\<close>: the second message has the role \<open>system\<close>
  and carries no marker in the output (only the first system message is marked), and the
  output carries three markers, two set by the planner and the one the input had.
\<close>

theorem injectCacheControl_markers_counterexample:
  "role (marked_prompt ! 1) = System \<and>
   \<not> carries_marker (injectCacheControl marked_prompt ! 1) \<and>
   marked (injectCacheControl marked_prompt) = [0, 2, 3] \<and>
   \<not> length (marked (injectCacheControl marked_prompt)) \<le> 2"
  by (simp add: marked_prompt_def injectCacheControl_def is_system_def withCache_def
      carries_marker_def anthropic_option_def provider_option_def anthropic_of_def options_of_def
      marked_def upt5 CACHE_CONTROL_def)

text \<open>Scenario B of the specification: \<open>[system, user, assistant]\<close> is marked at 0 and 1.\<close>

theorem injectCacheControl_markers_witness:
  "findIndex is_system tool_step_prompt = 0 \<and>
   set (marked (injectCacheControl tool_step_prompt)) = {0, 1} \<and>
   length (marked (injectCacheControl tool_step_prompt)) \<le> 2 \<and>
   carries_marker (injectCacheControl tool_step_prompt ! 0) \<and>
   carries_marker (injectCacheControl tool_step_prompt ! 1) \<and>
   injectCacheControl tool_step_prompt ! 2 = tool_step_prompt ! 2"
proof -
  have un: "\<forall>m\<in>set tool_step_prompt. \<not> carries_marker m"
    by (simp add: tool_step_prompt_def carries_marker_def anthropic_option_def provider_option_def)
  have s: "findIndex is_system tool_step_prompt = 0"
    by (simp add: tool_step_prompt_def is_system_def)
  have n: "length tool_step_prompt = 3"
    by (simp add: tool_step_prompt_def)
  note facts = injectCacheControl_markers [of tool_step_prompt, unfolded s n]
  have st: "{i. i < (3::nat) \<and> (int i = 0 \<or> (3 \<le> (3::nat) \<and> i = 3 - 2))} = {0, 1}"
    by auto
  from facts un have m: "set (marked (injectCacheControl tool_step_prompt)) = {0, 1}"
    unfolding st by blast
  from facts un have l: "length (marked (injectCacheControl tool_step_prompt)) \<le> 2"
    by blast
  from facts have c0: "carries_marker (injectCacheControl tool_step_prompt ! 0)"
    by simp
  from facts have c1: "carries_marker (injectCacheControl tool_step_prompt ! 1)"
    by simp
  from facts have "\<forall>i<3. int i \<noteq> 0 \<and> \<not> (3 \<le> (3::nat) \<and> i = 3 - 2) \<longrightarrow>
      injectCacheControl tool_step_prompt ! i = tool_step_prompt ! i"
    by blast
  then have c2: "injectCacheControl tool_step_prompt ! 2 = tool_step_prompt ! 2"
    by simp
  from s m l c0 c1 c2 show ?thesis by blast
qed

lemma anthropic_of_withCache:
  "anthropic_of (withCache m) = AList.update ''cacheControl'' CACHE_CONTROL (anthropic_of m)"
proof -
  have "anthropic_of x = (case provider_option x ''anthropic'' of None \<Rightarrow> [] | Some a \<Rightarrow> a)" for x
    by (simp add: anthropic_of_def provider_option_def split: option.splits)
  then show ?thesis by (simp add: provider_option_withCache_anthropic)
qed

text \<open>
  Claim C9. The marked copy of a message differs from the message in \<open>providerOptions\<close>
  only: role and content are those of the message, every provider other than
  \<open>anthropic\<close> keeps its options, every option of \<open>anthropic\<close> other than \<open>cacheControl\<close>
  keeps its value, and \<open>cacheControl\<close> is \<open>{ type: 'ephemeral' }\<close>.
\<close>

theorem withCache_frame:
  "withCache m = m\<lparr>providerOptions := providerOptions (withCache m)\<rparr> \<and>
   role (withCache m) = role m \<and>
   msg_content (withCache m) = msg_content m \<and>
   (\<forall>k. k \<noteq> ''anthropic'' \<longrightarrow> provider_option (withCache m) k = provider_option m k) \<and>
   (\<forall>k. k \<noteq> ''cacheControl'' \<longrightarrow> anthropic_option (withCache m) k = anthropic_option m k) \<and>
   anthropic_option (withCache m) ''cacheControl'' = Some CACHE_CONTROL"
proof -
  have a: "withCache m = m\<lparr>providerOptions := providerOptions (withCache m)\<rparr>"
    by (simp add: withCache_def)
  have b: "role (withCache m) = role m" "msg_content (withCache m) = msg_content m"
    by (simp_all add: withCache_def)
  have c: "\<forall>k. k \<noteq> ''anthropic'' \<longrightarrow> provider_option (withCache m) k = provider_option m k"
    by (simp add: provider_option_withCache_other)
  have d: "\<forall>k. k \<noteq> ''cacheControl'' \<longrightarrow> anthropic_option (withCache m) k = anthropic_option m k"
    by (simp add: anthropic_option_eq anthropic_of_withCache map_of_update_other)
  have e: "anthropic_option (withCache m) ''cacheControl'' = Some CACHE_CONTROL"
    using carries_marker_withCache [of m] by (simp add: carries_marker_def)
  from a b c d e show ?thesis by blast
qed

text \<open>On \<open>options_message\<close> the options of \<open>openai\<close> and \<open>sendReasoning\<close> survive.\<close>

theorem withCache_frame_witness:
  "provider_option (withCache options_message) ''openai'' = Some [(''user'', JStr ''u1'')] \<and>
   anthropic_option (withCache options_message) ''sendReasoning'' = Some (JBool True) \<and>
   anthropic_option (withCache options_message) ''cacheControl'' = Some CACHE_CONTROL \<and>
   role (withCache options_message) = User"
  using withCache_frame [of options_message]
  by (simp add: options_message_def provider_option_def anthropic_option_def)

lemma get_msgs_list_all2:
  "get_msgs h as = Some ms \<longleftrightarrow> list_all2 (\<lambda>a m. get_msg h a = Some m) as ms"
proof (induction as arbitrary: ms)
  case Nil
  show ?case by auto
next
  case (Cons a as)
  show ?case
    by (cases ms) (auto simp: Cons.IH [symmetric] split: option.splits)
qed

lemma get_msgs_Some_iff:
  "get_msgs h as = Some ms \<longleftrightarrow>
     length as = length ms \<and> (\<forall>j<length as. get_msg h (as ! j) = Some (ms ! j))"
  by (simp add: get_msgs_list_all2 list_all2_conv_all_nth)

lemma get_msg_append: "get_msg h a = Some m \<Longrightarrow> get_msg (h @ x) a = Some m"
  by (simp add: get_msg_def nth_append split: if_splits)

lemma get_msg_new: "get_msg (h @ [Msg m]) (length h) = Some m"
  by (simp add: get_msg_def)

lemma get_arr_new: "get_arr (h @ [Arr as]) (length h) = Some as"
  by (simp add: get_arr_def)

lemma get_msg_update:
  "get_msg h a = Some m \<Longrightarrow> get_arr h r = Some as \<Longrightarrow> get_msg (h[r := Arr bs]) a = Some m"
  by (auto simp: get_msg_def get_arr_def nth_list_update split: if_splits obj.splits)

lemma get_arr_update: "r < length h \<Longrightarrow> get_arr (h[r := Arr bs]) r = Some bs"
  by (simp add: get_arr_def)

lemma get_arr_append: "get_arr h r = Some as \<Longrightarrow> get_arr (h @ x) r = Some as"
  by (simp add: get_arr_def nth_append split: if_splits)

lemma read_prompt_D:
  "read_prompt h p = Some ms \<Longrightarrow> \<exists>as. get_arr h p = Some as \<and> get_msgs h as = Some ms"
  by (simp add: read_prompt_def split: option.splits)

lemma mark_at_ok:
  assumes rp: "read_prompt h r = Some ms" and i: "i < length ms"
  shows "\<exists>h'. mark_at h r i = Some h' \<and> length h' = Suc (length h) \<and>
           (\<forall>a<length h. a \<noteq> r \<longrightarrow> h' ! a = h ! a) \<and>
           read_prompt h' r = Some (ms[i := withCache (ms ! i)])"
proof -
  from read_prompt_D [OF rp] obtain as where as: "get_arr h r = Some as" "get_msgs h as = Some ms"
    by blast
  from as(2) have len: "length as = length ms"
    and el: "\<And>j. j < length as \<Longrightarrow> get_msg h (as ! j) = Some (ms ! j)"
    by (simp_all add: get_msgs_Some_iff)
  from as(1) have r: "r < length h" by (simp add: get_arr_def split: if_splits)
  let ?h1 = "h @ [Msg (withCache (ms ! i))]"
  let ?h' = "?h1[r := Arr (as[i := length h])]"
  have m: "mark_at h r i = Some ?h'"
    using as(1) i len el [of i] by (simp add: mark_at_def alloc_def)
  have l: "length ?h' = Suc (length h)" by simp
  have f: "\<forall>a<length h. a \<noteq> r \<longrightarrow> ?h' ! a = h ! a"
    by (simp add: nth_append)
  have arr1: "get_arr ?h1 r = Some as" by (rule get_arr_append [OF as(1)])
  have "get_arr ?h' r = Some (as[i := length h])"
    using r by (simp add: get_arr_update)
  moreover have "get_msgs ?h' (as[i := length h]) = Some (ms[i := withCache (ms ! i)])"
    unfolding get_msgs_Some_iff
  proof (intro conjI allI impI)
    show "length (as[i := length h]) = length (ms[i := withCache (ms ! i)])"
      by (simp add: len)
  next
    fix j assume "j < length (as[i := length h])"
    then have j: "j < length as" by simp
    show "get_msg ?h' (as[i := length h] ! j) = Some (ms[i := withCache (ms ! i)] ! j)"
    proof (cases "j = i")
      case True
      have "get_msg ?h1 (length h) = Some (withCache (ms ! i))" by (rule get_msg_new)
      from get_msg_update [OF this arr1] show ?thesis using True j len by simp
    next
      case False
      have "get_msg ?h1 (as ! j) = Some (ms ! j)" by (rule get_msg_append [OF el [OF j]])
      from get_msg_update [OF this arr1] show ?thesis using False j len by simp
    qed
  qed
  ultimately have rd: "read_prompt ?h' r = Some (ms[i := withCache (ms ! i)])"
    by (simp add: read_prompt_def)
  from m l f rd show ?thesis by blast
qed

lemma mark_opt_ok:
  assumes rp: "read_prompt h' r = Some ms'"
    and i: "c \<Longrightarrow> i < length ms'"
    and fresh: "length h \<le> r"
    and frame: "\<forall>a<length h. h' ! a = h ! a"
  shows "\<exists>h''. (if c then mark_at h' r i else Some h') = Some h'' \<and>
           length h' \<le> length h'' \<and>
           (\<forall>a<length h. h'' ! a = h ! a) \<and>
           read_prompt h'' r = Some (if c then ms'[i := withCache (ms' ! i)] else ms')"
proof (cases c)
  case False
  with rp frame show ?thesis by simp
next
  case True
  from read_prompt_D [OF rp] have r: "r < length h'"
    by (auto simp: get_arr_def split: if_splits)
  from mark_at_ok [OF rp i [OF True]] obtain h'' where h'':
    "mark_at h' r i = Some h''" "length h'' = Suc (length h')"
    "\<forall>a<length h'. a \<noteq> r \<longrightarrow> h'' ! a = h' ! a"
    "read_prompt h'' r = Some (ms'[i := withCache (ms' ! i)])"
    by blast
  have "\<forall>a<length h. h'' ! a = h ! a"
  proof (intro allI impI)
    fix a assume a: "a < length h"
    with fresh r have "a < length h'" "a \<noteq> r" by simp_all
    with h''(3) frame a show "h'' ! a = h ! a" by simp
  qed
  with True h'' show ?thesis by simp
qed

lemma injectCacheControl_heap_ok:
  assumes rp: "read_prompt h p = Some ms"
  shows "\<exists>h' r. injectCacheControl_heap h p = Some (h', r) \<and>
      length h \<le> length h' \<and>
      (\<forall>a<length h. h' ! a = h ! a) \<and>
      read_prompt h' r = Some (injectCacheControl ms) \<and>
      (ms = [] \<longrightarrow> r = p \<and> h' = h) \<and>
      (ms \<noteq> [] \<longrightarrow> length h \<le> r \<and> r < length h')"
proof (cases "ms = []")
  case True
  with rp show ?thesis
    by (simp add: injectCacheControl_heap_def injectCacheControl_def)
next
  case False
  from read_prompt_D [OF rp] obtain as where as: "get_arr h p = Some as" "get_msgs h as = Some ms"
    by blast
  from as(2) have len: "length as = length ms"
    and el: "\<And>j. j < length as \<Longrightarrow> get_msg h (as ! j) = Some (ms ! j)"
    by (simp_all add: get_msgs_Some_iff)
  let ?h0 = "h @ [Arr as]"
  let ?r = "length h"
  let ?s = "findIndex is_system ms"
  let ?c1 = "?s \<noteq> - 1"
  let ?ms1 = "if ?c1 then ms[nat ?s := withCache (ms ! nat ?s)] else ms"
  let ?c2 = "3 \<le> length as \<and> int (length as) - 2 \<noteq> ?s"
  let ?t = "nat (int (length as) - 2)"
  let ?ms2 = "if ?c2 then ?ms1[?t := withCache (?ms1 ! ?t)] else ?ms1"
  have "get_msgs ?h0 as = Some ms"
    unfolding get_msgs_Some_iff using len el by (simp add: get_msg_append)
  then have rp0: "read_prompt ?h0 ?r = Some ms"
    by (simp add: read_prompt_def get_arr_new)
  have frame0: "\<forall>a<length h. ?h0 ! a = h ! a" by (simp add: nth_append)
  have i1: "nat ?s < length ms" if ?c1
    using findIndex_found [OF that] by linarith
  from mark_opt_ok [OF rp0 i1 order_refl frame0, of ?c1] obtain h1 where h1:
    "(if ?c1 then mark_at ?h0 ?r (nat ?s) else Some ?h0) = Some h1"
    "length ?h0 \<le> length h1" "\<forall>a<length h. h1 ! a = h ! a"
    "read_prompt h1 ?r = Some ?ms1"
    by blast
  have i2: "?t < length ?ms1" if ?c2
  proof -
    from that len have "nat (int (length as) - 2) < length ms" by linarith
    then show ?thesis by simp
  qed
  from mark_opt_ok [OF h1(4) i2 order_refl h1(3), of ?c2] obtain h2 where h2:
    "(if ?c2 then mark_at h1 ?r ?t else Some h1) = Some h2"
    "length h1 \<le> length h2" "\<forall>a<length h. h2 ! a = h ! a"
    "read_prompt h2 ?r = Some ?ms2"
    by blast
  have val: "injectCacheControl ms = ?ms2"
    using False by (simp add: injectCacheControl_def Let_def len)
  have run: "injectCacheControl_heap h p = Some (h2, ?r)"
  proof -
    have "(if 3 \<le> length as
           then (let targetIdx = int (length as) - 2
                 in if targetIdx \<noteq> ?s then mark_at h1 ?r (nat targetIdx) else Some h1)
           else Some h1) = (if ?c2 then mark_at h1 ?r ?t else Some h1)"
      by (simp add: Let_def)
    with h2(1) have "(if 3 \<le> length as
           then (let targetIdx = int (length as) - 2
                 in if targetIdx \<noteq> ?s then mark_at h1 ?r (nat targetIdx) else Some h1)
           else Some h1) = Some h2"
      by (rule trans [rotated])
    with h1(1) False rp as(1) show ?thesis
      by (simp add: injectCacheControl_heap_def alloc_def Let_def)
  qed
  from h1(2) h2(2) have "length h < length h2" by simp
  with run h2(3,4) val False show ?thesis by simp
qed

lemma read_prompt_append:
  assumes "read_prompt h p = Some ms"
  shows "read_prompt (h @ x) p = Some ms"
proof -
  from read_prompt_D [OF assms] obtain as where as: "get_arr h p = Some as" "get_msgs h as = Some ms"
    by blast
  from as(2) have "get_msgs (h @ x) as = Some ms"
    unfolding get_msgs_Some_iff by (simp add: get_msg_append)
  with get_arr_append [OF as(1)] show ?thesis by (simp add: read_prompt_def)
qed

text \<open>
  Claim C8, as the planner does it. Let the array at address \<open>p\<close> of a store \<open>h\<close> denote
  the prompt \<open>ms\<close>. The call returns; every object of \<open>h\<close> is in the resulting store at
  its address, unchanged, so \<open>p\<close> still denotes \<open>ms\<close>; the returned array denotes
  \<open>injectCacheControl ms\<close>, which has the length of \<open>ms\<close> and holds at each position the
  input message or its marked copy; a call on any other store in which an array denotes
  the same prompt returns an array that denotes the same output. For a prompt that is not
  empty the returned array is a new object (its address is not one of \<open>h\<close>); for the
  empty prompt the returned array is the input array itself and nothing is allocated.
\<close>

theorem injectCacheControl_heap_pure:
  assumes rp: "read_prompt h p = Some ms" and rq: "read_prompt g q = Some ms"
  shows "\<exists>h' r g' r'.
      injectCacheControl_heap h p = Some (h', r) \<and>
      injectCacheControl_heap g q = Some (g', r') \<and>
      take (length h) h' = h \<and>
      read_prompt h' p = Some ms \<and>
      read_prompt h' r = Some (injectCacheControl ms) \<and>
      read_prompt g' r' = read_prompt h' r \<and>
      length (injectCacheControl ms) = length ms \<and>
      (\<forall>i<length ms. injectCacheControl ms ! i = ms ! i \<or>
                      injectCacheControl ms ! i = withCache (ms ! i)) \<and>
      (ms = [] \<longrightarrow> r = p \<and> h' = h) \<and>
      (ms \<noteq> [] \<longrightarrow> length h \<le> r \<and> r < length h')"
proof -
  from injectCacheControl_heap_ok [OF rp] obtain h' r where h:
    "injectCacheControl_heap h p = Some (h', r)" "length h \<le> length h'"
    "\<forall>a<length h. h' ! a = h ! a" "read_prompt h' r = Some (injectCacheControl ms)"
    "ms = [] \<longrightarrow> r = p \<and> h' = h" "ms \<noteq> [] \<longrightarrow> length h \<le> r \<and> r < length h'"
    by blast
  from injectCacheControl_heap_ok [OF rq] obtain g' r' where g:
    "injectCacheControl_heap g q = Some (g', r')" "read_prompt g' r' = Some (injectCacheControl ms)"
    by blast
  from h(2,3) have tk: "take (length h) h' = h"
    by (intro nth_equalityI) simp_all
  have "h' = take (length h) h' @ drop (length h) h'" by simp
  with tk have "h' = h @ drop (length h) h'" by simp
  with read_prompt_append [OF rp, of "drop (length h) h'"] have keep: "read_prompt h' p = Some ms"
    by simp
  have nth: "\<forall>i<length ms. injectCacheControl ms ! i = ms ! i \<or>
                      injectCacheControl ms ! i = withCache (ms ! i)"
    by (simp add: injectCacheControl_nth)
  from h g tk keep nth show ?thesis
    by (simp add: injectCacheControl_length)
qed

text \<open>On \<open>tool_step_heap\<close> the result is a new array, and the four objects of the input
  store are untouched.\<close>

theorem injectCacheControl_heap_pure_witness:
  "read_prompt tool_step_heap 3 = Some tool_step_prompt \<and>
   (\<exists>h' r. injectCacheControl_heap tool_step_heap 3 = Some (h', r) \<and>
       take 4 h' = tool_step_heap \<and>
       read_prompt h' 3 = Some tool_step_prompt \<and>
       read_prompt h' r = Some (injectCacheControl tool_step_prompt) \<and>
       4 \<le> r)"
proof -
  have rp: "read_prompt tool_step_heap 3 = Some tool_step_prompt"
    by (simp add: read_prompt_def get_arr_def get_msg_def tool_step_heap_def tool_step_prompt_def)
  have l: "length tool_step_heap = 4" by (simp add: tool_step_heap_def)
  have ne: "tool_step_prompt \<noteq> []" by (simp add: tool_step_prompt_def)
  from injectCacheControl_heap_pure [OF rp rp] ne rp show ?thesis
    unfolding l by auto
qed

text \<open>Claim C8 as stated fails for the empty prompt: the array returned is the one passed
  in, not a new one.\<close>

theorem injectCacheControl_heap_pure_counterexample:
  "read_prompt empty_prompt_heap 0 = Some [] \<and>
   injectCacheControl_heap empty_prompt_heap 0 = Some (empty_prompt_heap, 0)"
  by (simp add: injectCacheControl_heap_def read_prompt_def get_arr_def empty_prompt_heap_def)

section \<open>Properties of the token accounting\<close>

lemma computePreviewMetadata_tokenCountMap:
  "map_of (tokenCountMap (computePreviewMetadata est ts n content t existingTokenMap)) k =
     (if k = tokenizer_key t @ ''_preview''
      then Some (est (join_lines (take n (split_lines content))) (selector_for t))
      else if k = tokenizer_key t \<and> map_of existingTokenMap k = None
      then Some (est content (selector_for t))
      else map_of existingTokenMap k)"
  by (auto simp: computePreviewMetadata_def Let_def update_conv')

lemma computePreviewMetadata_tokenCalculatedAt:
  "map_of (tokenCalculatedAt (computePreviewMetadata est ts n content t existingTokenMap)) k =
     (if k = tokenizer_key t @ ''_preview'' then Some ts
      else if k = tokenizer_key t \<and> map_of existingTokenMap k = None then Some ts
      else None)"
  by (auto simp: computePreviewMetadata_def Let_def update_conv')

text \<open>
  Claim C3. In the result of \<open>computePreviewMetadata\<close> for the tokenizer \<open>t\<close>: a
  full-content slot \<open>t\<close> that the existing map has keeps its value and gets no new
  timestamp; an absent one is computed over the whole content and stamped; the preview slot
  \<open>t_preview\<close> is always the count over the first \<open>PREVIEW_LINES\<close> lines, stamped with the
  current time, whatever the existing map held there; every other slot is that of the
  existing map; and a further call on the returned map, with any tokenizer function, time
  and content, leaves slot \<open>t\<close> as it is, so it is computed once.
\<close>

theorem computePreviewMetadata_slots:
  fixes est :: "string \<Rightarrow> model_selector \<Rightarrow> int"
    and ts :: int and n :: nat and content :: string and t :: tokenizer
    and existingTokenMap :: token_map
  defines "r \<equiv> computePreviewMetadata est ts n content t existingTokenMap"
    and "fullKey \<equiv> tokenizer_key t"
    and "previewKey \<equiv> tokenizer_key t @ ''_preview''"
  shows "(\<forall>v. map_of existingTokenMap fullKey = Some v \<longrightarrow>
            map_of (tokenCountMap r) fullKey = Some v \<and>
            map_of (tokenCalculatedAt r) fullKey = None) \<and>
    (map_of existingTokenMap fullKey = None \<longrightarrow>
       map_of (tokenCountMap r) fullKey = Some (est content (selector_for t)) \<and>
       map_of (tokenCalculatedAt r) fullKey = Some ts) \<and>
    map_of (tokenCountMap r) previewKey =
      Some (est (join_lines (take n (split_lines content))) (selector_for t)) \<and>
    map_of (tokenCalculatedAt r) previewKey = Some ts \<and>
    (\<forall>k. k \<noteq> fullKey \<and> k \<noteq> previewKey \<longrightarrow>
       map_of (tokenCountMap r) k = map_of existingTokenMap k \<and>
       map_of (tokenCalculatedAt r) k = None) \<and>
    (\<forall>est' ts' n' content'.
       map_of (tokenCountMap (computePreviewMetadata est' ts' n' content' t (tokenCountMap r)))
         fullKey =
       map_of (tokenCountMap r) fullKey)"
proof -
  have a: "\<forall>v. map_of existingTokenMap fullKey = Some v \<longrightarrow>
            map_of (tokenCountMap r) fullKey = Some v \<and>
            map_of (tokenCalculatedAt r) fullKey = None"
    unfolding r_def fullKey_def
    by (simp add: computePreviewMetadata_tokenCountMap computePreviewMetadata_tokenCalculatedAt)
  have b: "map_of existingTokenMap fullKey = None \<longrightarrow>
       map_of (tokenCountMap r) fullKey = Some (est content (selector_for t)) \<and>
       map_of (tokenCalculatedAt r) fullKey = Some ts"
    unfolding r_def fullKey_def
    by (simp add: computePreviewMetadata_tokenCountMap computePreviewMetadata_tokenCalculatedAt)
  have c: "map_of (tokenCountMap r) previewKey =
      Some (est (join_lines (take n (split_lines content))) (selector_for t))"
    "map_of (tokenCalculatedAt r) previewKey = Some ts"
    unfolding r_def previewKey_def
    by (simp_all add: computePreviewMetadata_tokenCountMap computePreviewMetadata_tokenCalculatedAt)
  have d: "\<forall>k. k \<noteq> fullKey \<and> k \<noteq> previewKey \<longrightarrow>
       map_of (tokenCountMap r) k = map_of existingTokenMap k \<and>
       map_of (tokenCalculatedAt r) k = None"
    unfolding r_def fullKey_def previewKey_def
    by (simp add: computePreviewMetadata_tokenCountMap computePreviewMetadata_tokenCalculatedAt)
  have present: "map_of (tokenCountMap r) fullKey \<noteq> None"
    unfolding r_def fullKey_def
    by (simp add: computePreviewMetadata_tokenCountMap)
  have e: "\<forall>est' ts' n' content'.
       map_of (tokenCountMap (computePreviewMetadata est' ts' n' content' t (tokenCountMap r)))
         fullKey =
       map_of (tokenCountMap r) fullKey"
    using present unfolding fullKey_def
    by (simp add: computePreviewMetadata_tokenCountMap [of _ _ _ _ _ "tokenCountMap r"])
  from a b c d e show ?thesis by blast
qed

text \<open>With a populated \<open>default\<close> slot the value 7 stays and the preview becomes 4, the
  bytes of the first two lines; with an empty map the slot is computed, 6 bytes.\<close>

theorem computePreviewMetadata_slots_witness:
  "map_of (tokenCountMap (computePreviewMetadata count_bytes 1000 2 three_lines TkDefault
                            [(''default'', 7), (''default_preview'', 1)])) ''default'' = Some 7 \<and>
   map_of (tokenCalculatedAt (computePreviewMetadata count_bytes 1000 2 three_lines TkDefault
                            [(''default'', 7), (''default_preview'', 1)])) ''default'' = None \<and>
   map_of (tokenCountMap (computePreviewMetadata count_bytes 1000 2 three_lines TkDefault
                            [(''default'', 7), (''default_preview'', 1)])) ''default_preview'' = Some 4 \<and>
   map_of (tokenCountMap (computePreviewMetadata count_bytes 1000 2 three_lines TkDefault []))
      ''default'' = Some 6"
  using computePreviewMetadata_slots [where est = count_bytes and ts = 1000 and n = 2
      and content = three_lines and t = TkDefault
      and existingTokenMap = "[(''default'', 7), (''default_preview'', 1)]"]
    computePreviewMetadata_slots [where est = count_bytes and ts = 1000 and n = 2
      and content = three_lines and t = TkDefault and existingTokenMap = "[]"]
  by (simp add: three_lines_def count_bytes_def newline_def)

section \<open>Properties of the ingestion\<close>





lemma getBlob_or_null_eq:
  "getBlob_or_null e k w =
     (Inr (case getBlob_rejects e k of None \<Rightarrow> map_of (blobs (storage w)) k | Some _ \<Rightarrow> None), w)"
  by (simp add: getBlob_or_null_def catchE_def storage_getBlob_def returnE_def split: option.splits)

lemma estimate_eq:
  "estimate e c sel w =
     (case estimateTokens_throws e c sel of
        Some x \<Rightarrow> (Inl x, w)
      | None \<Rightarrow> (Inr (estimateTokens e c sel), w))"
  by (simp add: estimate_def throwE_def returnE_def split: option.splits)

lemma computePreviewMetadata_call_eq:
  "computePreviewMetadata_call e c t m w =
     (case preview_throws e c t m of
        Some x \<Rightarrow> (Inl x, w)
      | None \<Rightarrow>
          (Inr (computePreviewMetadata (estimateTokens e) (now e) (PREVIEW_LINES e) c t m), w))"
  by (simp add: computePreviewMetadata_call_def preview_throws_def bindE_def estimate_eq
      returnE_def split: option.splits)

lemma finish_eq:
  "finish e file c storageKey existingTokenMap w =
     (let md = computePreviewMetadata (estimateTokens e) (now e) (PREVIEW_LINES e)
                 c (currentTokenizerType e) existingTokenMap
      in case finish_throws e c storageKey existingTokenMap of
           Some x \<Rightarrow> (Inl x, w)
         | None \<Rightarrow>
             (Inr \<lparr>pre_file = file, pre_content = c, pre_storageKey = storageKey,
                   pre_tokenCountMap = Some (tokenCountMap md),
                   pre_lineCount = Some (lineCount md),
                   pre_byteLength = Some (byteLength md),
                   pre_error = None\<rparr>,
              w\<lparr>storage := (storage w)\<lparr>items :=
                   AList.update (storageKey @ ''_tokenMap'') (tokenCountMap md)
                     (items (storage w))\<rparr>\<rparr>))"
  by (simp add: finish_def finish_throws_def getCurrentTokenizerType_def Let_def bindE_def
      computePreviewMetadata_call_eq storage_setItem_def returnE_def throwE_def
      split: option.splits)

lemma finish_throws_None:
  "finish_throws e c k m = None \<longleftrightarrow>
     currentTokenizerType_throws e = None \<and>
     preview_throws e c (currentTokenizerType e) m = None \<and>
     setItem_rejects e (k @ ''_tokenMap'') = None"
  by (simp add: finish_throws_def split: option.splits)







lemma bindE_Inr_step: "m w = (Inr a, w1) \<Longrightarrow> bindE m f w = f a w1"
  by (simp add: bindE_def)




lemma parse_and_finish_eq:
  "parse_and_finish e file k w =
     (case documentParser_throws e of
        Some x \<Rightarrow> (Inl x, w)
      | None \<Rightarrow>
          (case isTextFilePath_throws e (file_name file) of
             Some x \<Rightarrow> (Inl x, w)
           | None \<Rightarrow>
               bindE (parse_with_backend e file k (documentParser e)
                        (isTextFilePath e (file_name file)))
                 (\<lambda>result. finish e file (parsed_content result) (parsed_storageKey result)
                              (parsed_tokenCountMap result)) w))"
  by (simp add: parse_and_finish_def getEffectiveDocumentParserConfig_def
      isTextFilePath_call_def bindE_def throwE_def returnE_def split: option.splits)


lemma preprocessFile_try_key:
  assumes "fileUniqKey e file = Inr k"
  shows "preprocessFile_try e file w =
     (case cache_lookup e k w of
        Some existingContent \<Rightarrow>
          bindE (storage_getItem e (k @ ''_tokenMap'') []) (finish e file existingContent k) w
      | None \<Rightarrow> parse_and_finish e file k w)"
proof -
  have 1: "bindE (liftE (fileUniqKey e file)) f w = f k w" for f :: "string \<Rightarrow> preprocessed io"
    using assms by (simp add: bindE_def liftE_def)
  have 2: "bindE (getBlob_or_null e k) f w =
      f (case getBlob_rejects e k of None \<Rightarrow> map_of (blobs (storage w)) k | Some _ \<Rightarrow> None) w"
    for f :: "string option \<Rightarrow> preprocessed io"
    by (simp add: bindE_def getBlob_or_null_eq)
  show ?thesis
    unfolding preprocessFile_try_def 1 2 cache_lookup_def
    by (simp split: option.splits)
qed

lemma preprocessFile_try_hit:
  assumes "fileUniqKey e file = Inr k" "cache_lookup e k w = Some c"
  shows "preprocessFile_try e file w =
     (case getItem_rejects e (k @ ''_tokenMap'') of
        Some x \<Rightarrow> (Inl x, w)
      | None \<Rightarrow> finish e file c k (stored_token_map w k) w)"
  using assms
  by (simp add: preprocessFile_try_key bindE_def storage_getItem_def stored_token_map_def
      split: option.splits)

lemma preprocessFile_try_miss:
  assumes "fileUniqKey e file = Inr k" "cache_lookup e k w = None"
  shows "preprocessFile_try e file w = parse_and_finish e file k w"
  using assms by (simp add: preprocessFile_try_key)

lemma preprocessFile_Inr:
  "preprocessFile_try e file w = (Inr r, w') \<Longrightarrow> preprocessFile e file settings w = (r, w')"
  by (simp add: preprocessFile_def)

lemma preprocessFile_Inl:
  "preprocessFile_try e file w = (Inl x, w') \<Longrightarrow>
     preprocessFile e file settings w = (error_result file x, w')"
  by (simp add: preprocessFile_def error_result_def message_of_def)










lemma preprocessFile_hit_eq:
  assumes key: "fileUniqKey e file = Inr k" and hit: "cache_lookup e k w = Some c"
  shows "preprocessFile e file settings w =
     (case getItem_rejects e (k @ ''_tokenMap'') of
        Some x \<Rightarrow> (error_result file x, w)
      | None \<Rightarrow>
          (let md = computePreviewMetadata (estimateTokens e) (now e) (PREVIEW_LINES e)
                      c (currentTokenizerType e) (stored_token_map w k)
           in case finish_throws e c k (stored_token_map w k) of
                Some x \<Rightarrow> (error_result file x, w)
              | None \<Rightarrow>
                  (\<lparr>pre_file = file, pre_content = c, pre_storageKey = k,
                    pre_tokenCountMap = Some (tokenCountMap md),
                    pre_lineCount = Some (lineCount md),
                    pre_byteLength = Some (byteLength md),
                    pre_error = None\<rparr>,
                   w\<lparr>storage := (storage w)\<lparr>items :=
                        AList.update (k @ ''_tokenMap'') (tokenCountMap md)
                          (items (storage w))\<rparr>\<rparr>)))"
proof (cases "getItem_rejects e (k @ ''_tokenMap'')")
  case (Some x)
  then have "preprocessFile_try e file w = (Inl x, w)"
    by (simp add: preprocessFile_try_hit [OF key hit])
  from preprocessFile_Inl [OF this, where settings = settings] Some show ?thesis by simp
next
  case None
  then have run: "preprocessFile_try e file w = finish e file c k (stored_token_map w k) w"
    by (simp add: preprocessFile_try_hit [OF key hit])
  show ?thesis
  proof (cases "finish_throws e c k (stored_token_map w k)")
    case (Some x)
    then have "preprocessFile_try e file w = (Inl x, w)"
      unfolding run by (simp add: finish_eq Let_def)
    from preprocessFile_Inl [OF this, where settings = settings] Some None show ?thesis
      by (simp add: Let_def)
  next
    case sn: None
    let ?md = "computePreviewMetadata (estimateTokens e) (now e) (PREVIEW_LINES e)
                      c (currentTokenizerType e) (stored_token_map w k)"
    from sn have "preprocessFile_try e file w =
       (Inr \<lparr>pre_file = file, pre_content = c, pre_storageKey = k,
                    pre_tokenCountMap = Some (tokenCountMap ?md),
                    pre_lineCount = Some (lineCount ?md),
                    pre_byteLength = Some (byteLength ?md),
                    pre_error = None\<rparr>,
        w\<lparr>storage := (storage w)\<lparr>items :=
                        AList.update (k @ ''_tokenMap'') (tokenCountMap ?md)
                          (items (storage w))\<rparr>\<rparr>)"
      unfolding run by (simp add: finish_eq Let_def)
    from preprocessFile_Inr [OF this, where settings = settings] sn None show ?thesis
      by (simp add: Let_def)
  qed
qed




lemma error_result_simps:
  "pre_file (error_result f x) = f"
  "pre_content (error_result f x) = []"
  "pre_storageKey (error_result f x) = []"
  "pre_tokenCountMap (error_result f x) = None"
  "pre_lineCount (error_result f x) = None"
  "pre_byteLength (error_result f x) = None"
  "pre_error (error_result f x) = Some (message_of x)"
  by (simp_all add: error_result_def)


lemma notes_key:
  "fileUniqKey mineru_env notes_txt = Inr ''file:notes.txt''"
  "fileUniqKey silent_failure_env notes_txt = Inr ''file:notes.txt''"
  "fileUniqKey unreadable_env notes_txt = Inr ''file:notes.txt''"
  "fileUniqKey tokenizer_fails_env notes_txt = Inr ''file:notes.txt''"
  by (simp_all add: mineru_env_def silent_failure_env_def unreadable_env_def
      tokenizer_fails_env_def notes_txt_def)

lemma notes_cached:
  "cache_lookup mineru_env ''file:notes.txt'' cached_world = Some three_lines"
  "cache_lookup silent_failure_env ''file:notes.txt'' cached_world = Some three_lines"
  "cache_lookup unreadable_env ''file:notes.txt'' cached_world = None"
  "cache_lookup tokenizer_fails_env ''file:notes.txt'' cached_world = Some three_lines"
  "cache_lookup tokenizer_fails_env ''file:notes.txt'' empty_world = None"
  by (simp_all add: cache_lookup_def truthy_def mineru_env_def silent_failure_env_def
      unreadable_env_def tokenizer_fails_env_def never_def cached_world_def empty_world_def
      three_lines_def)

lemma notes_token_map:
  "stored_token_map cached_world ''file:notes.txt'' = [(''default'', 6), (''deepseek'', 5)]"
  by (simp add: stored_token_map_def cached_world_def)

lemma notes_finish_throws:
  "finish_throws mineru_env three_lines ''file:notes.txt''
     [(''default'', 6), (''deepseek'', 5)] = None"
  "finish_throws tokenizer_fails_env three_lines ''file:notes.txt''
     [(''default'', 6), (''deepseek'', 5)] = Some (Error ''tokenizer crashed'')"
  "finish_throws silent_failure_env three_lines ''file:notes.txt''
     [(''default'', 6), (''deepseek'', 5)] = Some (Error [])"
  by (simp_all add: finish_throws_def preview_throws_def mineru_env_def tokenizer_fails_env_def
      silent_failure_env_def never_def)

lemma silent_getItem:
  "getItem_rejects silent_failure_env ''file:notes.txt_tokenMap'' = None"
  by (simp add: silent_failure_env_def mineru_env_def never_def)




text \<open>
  Claim C4, as \<open>preprocessFile\<close> does it. Let the key of the file be derived, let
  \<open>storage.getBlob\<close> not reject for it and let the store hold a non-empty content under
  it. Then no parser backend is called and the blobs stay as they are. When reading the
  token map, reading the tokenizer kind, the token computation and writing the token map
  do not fail, the result carries exactly the stored content, the key, no error, and the
  token map \<open>computePreviewMetadata\<close> extends from the stored one for the current tokenizer,
  which is persisted under \<open>key_tokenMap\<close>. When one of them fails, the result is the error
  value with empty content and the store is unchanged.
\<close>

theorem preprocessFile_cache_hit:
  fixes e :: env and f :: File and settings :: 'settings and w :: world
    and uniqKey existingContent :: string and existingTokenMap :: token_map
  assumes key: "fileUniqKey e f = Inr uniqKey"
    and readable: "getBlob_rejects e uniqKey = None"
    and stored: "map_of (blobs (storage w)) uniqKey = Some existingContent"
    and nonempty: "existingContent \<noteq> []"
  defines "existingTokenMap \<equiv>
      (case map_of (items (storage w)) (uniqKey @ ''_tokenMap'') of None \<Rightarrow> [] | Some m \<Rightarrow> m)"
    and "md \<equiv> computePreviewMetadata (estimateTokens e) (now e) (PREVIEW_LINES e)
                 existingContent (currentTokenizerType e) existingTokenMap"
    and "out \<equiv> preprocessFile e f settings w"
  shows "calls (snd out) = calls w \<and>
    blobs (storage (snd out)) = blobs (storage w) \<and>
    (getItem_rejects e (uniqKey @ ''_tokenMap'') = None \<and>
     currentTokenizerType_throws e = None \<and>
     preview_throws e existingContent (currentTokenizerType e) existingTokenMap = None \<and>
     setItem_rejects e (uniqKey @ ''_tokenMap'') = None \<longrightarrow>
       fst out = \<lparr>pre_file = f, pre_content = existingContent, pre_storageKey = uniqKey,
                  pre_tokenCountMap = Some (tokenCountMap md),
                  pre_lineCount = Some (lineCount md),
                  pre_byteLength = Some (byteLength md),
                  pre_error = None\<rparr> \<and>
       items (storage (snd out)) =
         AList.update (uniqKey @ ''_tokenMap'') (tokenCountMap md) (items (storage w))) \<and>
    (getItem_rejects e (uniqKey @ ''_tokenMap'') \<noteq> None \<or>
     currentTokenizerType_throws e \<noteq> None \<or>
     preview_throws e existingContent (currentTokenizerType e) existingTokenMap \<noteq> None \<or>
     setItem_rejects e (uniqKey @ ''_tokenMap'') \<noteq> None \<longrightarrow>
       pre_content (fst out) = [] \<and> pre_error (fst out) \<noteq> None \<and> snd out = w)"
proof -
  from readable stored nonempty have hit: "cache_lookup e uniqKey w = Some existingContent"
    by (simp add: cache_lookup_def truthy_def)
  note eq = preprocessFile_hit_eq [OF key hit, where settings = settings]
  have m: "existingTokenMap = stored_token_map w uniqKey"
    by (simp add: existingTokenMap_def stored_token_map_def)
  have n: "finish_throws e existingContent uniqKey (stored_token_map w uniqKey) = None \<longleftrightarrow>
     currentTokenizerType_throws e = None \<and>
     preview_throws e existingContent (currentTokenizerType e) existingTokenMap = None \<and>
     setItem_rejects e (uniqKey @ ''_tokenMap'') = None"
    unfolding m by (rule finish_throws_None)
  show ?thesis
  proof (cases "getItem_rejects e (uniqKey @ ''_tokenMap'')")
    case (Some x)
    then show ?thesis unfolding out_def eq by (simp add: error_result_simps)
  next
    case g: None
    show ?thesis
    proof (cases "finish_throws e existingContent uniqKey (stored_token_map w uniqKey)")
      case None
      with n have ok: "currentTokenizerType_throws e = None"
        "preview_throws e existingContent (currentTokenizerType e) existingTokenMap = None"
        "setItem_rejects e (uniqKey @ ''_tokenMap'') = None" by simp_all
      from None g ok show ?thesis unfolding out_def eq md_def m by (simp add: Let_def)
    next
      case (Some x)
      with n have bad: "\<not> (currentTokenizerType_throws e = None \<and>
         preview_throws e existingContent (currentTokenizerType e) existingTokenMap = None \<and>
         setItem_rejects e (uniqKey @ ''_tokenMap'') = None)" by simp
      from Some g have "out = (error_result f x, w)" unfolding out_def eq by (simp add: Let_def)
      with bad show ?thesis by (auto simp: error_result_simps)
    qed
  qed
qed

text \<open>The cached text file is returned from the store, without a backend call.\<close>

theorem preprocessFile_cache_hit_witness:
  "pre_content (fst (preprocessFile mineru_env notes_txt () cached_world)) = three_lines \<and>
   pre_error (fst (preprocessFile mineru_env notes_txt () cached_world)) = None \<and>
   calls (snd (preprocessFile mineru_env notes_txt () cached_world)) = []"
proof -
  have r: "getBlob_rejects mineru_env ''file:notes.txt'' = None"
    by (simp add: mineru_env_def never_def)
  have s: "map_of (blobs (storage cached_world)) ''file:notes.txt'' = Some three_lines"
    by (simp add: cached_world_def)
  have n: "three_lines \<noteq> []"
    by (simp add: three_lines_def)
  have g: "getItem_rejects mineru_env (''file:notes.txt'' @ ''_tokenMap'') = None"
    "setItem_rejects mineru_env (''file:notes.txt'' @ ''_tokenMap'') = None"
    "currentTokenizerType_throws mineru_env = None"
    "preview_throws mineru_env three_lines (currentTokenizerType mineru_env)
       (case map_of (items (storage cached_world)) (''file:notes.txt'' @ ''_tokenMap'') of
          None \<Rightarrow> [] | Some m \<Rightarrow> m) = None"
    by (simp_all add: mineru_env_def never_def preview_throws_def)
  have c: "calls cached_world = []"
    by (simp add: cached_world_def)
  from preprocessFile_cache_hit [OF notes_key(1) r s n, where settings = "()"] g c
  show ?thesis by simp
qed

lemma unreadable_invokes_parser:
  "calls (snd (preprocessFile unreadable_env notes_txt () cached_world)) = [LocalParser]"
  unfolding preprocessFile_def preprocessFile_try_miss [OF notes_key(3) notes_cached(3)]
    parse_and_finish_eq
  by (simp add: parse_with_backend_def catchE_def parseFileWithLocalParser_def bindE_def
      invoke_def local_parses_def getBlob_or_empty_def storage_getBlob_def store_parsed_def
      storage_setBlob_def storage_setItem_def both_token_counts_def estimate_eq finish_eq
      finish_throws_def preview_throws_def Let_def
      returnE_def throwE_def unreadable_env_def mineru_env_def never_def notes_txt_def
      cached_world_def three_lines_def count_bytes_def)

text \<open>Claim C4 as stated fails in two ways on a store that holds the content: when
  \<open>storage.setItem\<close> rejects, the content returned is empty, not the stored one; when
  \<open>storage.getBlob\<close> rejects, the lookup counts as a miss and the local parser is called.\<close>

theorem preprocessFile_cache_hit_counterexample:
  "map_of (blobs (storage cached_world)) ''file:notes.txt'' = Some three_lines \<and>
   pre_content (fst (preprocessFile silent_failure_env notes_txt () cached_world)) = [] \<and>
   pre_content (fst (preprocessFile silent_failure_env notes_txt () cached_world)) \<noteq> three_lines \<and>
   calls (snd (preprocessFile unreadable_env notes_txt () cached_world)) = [LocalParser]"
proof -
  have "pre_content (fst (preprocessFile silent_failure_env notes_txt () cached_world)) = []"
    unfolding preprocessFile_hit_eq [OF notes_key(2) notes_cached(2)]
    by (simp add: silent_getItem Let_def error_result_simps notes_token_map
        notes_finish_throws)
  moreover have "map_of (blobs (storage cached_world)) ''file:notes.txt'' = Some three_lines"
    by (simp add: cached_world_def)
  moreover have "three_lines \<noteq> []" by (simp add: three_lines_def)
  ultimately show ?thesis using unreadable_invokes_parser by simp
qed

lemma mineru_cancelled_run:
  assumes nt: "\<not> isText"
    and ty: "parser_type cfg = ''mineru''"
    and tok: "mineru_apiToken cfg = Some apiToken" "apiToken \<noteq> []"
    and sup: "parseFileWithMineru e = Some parse"
    and res: "parse file apiToken (storage w) = (Inr result, st')"
    and can: "cancelled result"
  shows "parse_with_backend e file uniqKey cfg isText w =
    (Inl (Error ''third_party_parser_failed''), \<lparr>storage = st', calls = calls w @ [MineruParser]\<rparr>)"
proof -
  let ?w1 = "\<lparr>storage = st', calls = calls w @ [MineruParser]\<rparr>"
  from nt ty tok have sel: "parse_with_backend e file uniqKey cfg isText =
      catchE (parseFileWithMineruService e file uniqKey apiToken) mineru_handler"
    by (simp add: parse_with_backend_def)
  from sup res can have svc: "parseFileWithMineruService e file uniqKey apiToken w =
      (Inl (Error ''parsing_cancelled''), ?w1)"
    by (simp add: parseFileWithMineruService_def bindE_def invoke_def throwE_def)
  have "\<not> prefix ''third_party_parser'' ''parsing_cancelled''" by simp
  then have "mineru_handler (Error ''parsing_cancelled'') ?w1 =
      (Inl (Error ''third_party_parser_failed''), ?w1)"
    by (simp only: mineru_handler_def exn.case if_False throwE_def)
  with svc show ?thesis unfolding sel by (simp add: catchE_def)
qed

text \<open>
  Claim C2 says that a MinerU parse the user cancels surfaces as the error
  \<open>parsing_cancelled\<close>. The code does otherwise: for a file that is not a text file and not
  cached, with the MinerU backend configured with a token and supported by the platform
  (the parser configuration is read and the text-file test returns), a parse that reports
  \<open>cancelled\<close> makes \<open>parseFileWithMineruService\<close> throw \<open>parsing_cancelled\<close>, but the
  handler of the \<open>mineru\<close> arm lets only messages starting with \<open>third_party_parser\<close>
  through and replaces this one, so the result of \<open>preprocessFile\<close> carries
  \<open>third_party_parser_failed\<close>.
\<close>

theorem mineru_cancelled_is_wrapped:
  fixes e :: env and f :: File and settings :: 'settings and w :: world
  assumes key: "fileUniqKey e f = Inr uniqKey"
    and miss: "getBlob_rejects e uniqKey \<noteq> None \<or>
               map_of (blobs (storage w)) uniqKey = None \<or>
               map_of (blobs (storage w)) uniqKey = Some []"
    and cfg: "documentParser_throws e = None"
    and tx: "isTextFilePath_throws e (file_name f) = None"
    and nt: "\<not> isTextFilePath e (file_name f)"
    and ty: "parser_type (documentParser e) = ''mineru''"
    and tok: "mineru_apiToken (documentParser e) = Some apiToken" "apiToken \<noteq> []"
    and sup: "parseFileWithMineru e = Some parse"
    and res: "parse f apiToken (storage w) = (Inr result, st')"
    and can: "cancelled result"
  shows "pre_error (fst (preprocessFile e f settings w)) = Some ''third_party_parser_failed'' \<and>
    pre_error (fst (preprocessFile e f settings w)) \<noteq> Some ''parsing_cancelled'' \<and>
    calls (snd (preprocessFile e f settings w)) = calls w @ [MineruParser]"
proof -
  from miss have none: "cache_lookup e uniqKey w = None"
    by (auto simp: cache_lookup_def truthy_def split: option.splits)
  let ?w1 = "\<lparr>storage = st', calls = calls w @ [MineruParser]\<rparr>"
  have "preprocessFile_try e f w = (Inl (Error ''third_party_parser_failed''), ?w1)"
    unfolding preprocessFile_try_miss [OF key none] parse_and_finish_eq
    using cfg tx mineru_cancelled_run [OF nt ty tok sup res can, of uniqKey]
    by (simp add: bindE_def)
  from preprocessFile_Inl [OF this, where settings = settings] show ?thesis
    by (simp add: error_result_simps message_of_def)
qed

text \<open>The failing input: \<open>report.pdf\<close>, an empty store, a parse that is cancelled.\<close>

theorem mineru_cancelled_is_wrapped_witness:
  "pre_error (fst (preprocessFile mineru_env report_pdf () empty_world)) =
     Some ''third_party_parser_failed'' \<and>
   calls (snd (preprocessFile mineru_env report_pdf () empty_world)) = [MineruParser]"
proof -
  have key: "fileUniqKey mineru_env report_pdf = Inr ''file:report.pdf''"
    by (simp add: mineru_env_def report_pdf_def)
  have miss: "getBlob_rejects mineru_env ''file:report.pdf'' \<noteq> None \<or>
               map_of (blobs (storage empty_world)) ''file:report.pdf'' = None \<or>
               map_of (blobs (storage empty_world)) ''file:report.pdf'' = Some []"
    by (simp add: empty_world_def)
  have cfg: "documentParser_throws mineru_env = None"
    by (simp add: mineru_env_def)
  have tx: "isTextFilePath_throws mineru_env (file_name report_pdf) = None"
    by (simp add: mineru_env_def never_def)
  have nt: "\<not> isTextFilePath mineru_env (file_name report_pdf)"
    by (simp add: mineru_env_def report_pdf_def)
  have ty: "parser_type (documentParser mineru_env) = ''mineru''"
    by (simp add: mineru_env_def)
  have tok: "mineru_apiToken (documentParser mineru_env) = Some ''token''" "''token'' \<noteq> []"
    by (simp_all add: mineru_env_def)
  have sup: "parseFileWithMineru mineru_env = Some mineru_cancels"
    by (simp add: mineru_env_def)
  have res: "mineru_cancels report_pdf ''token'' (storage empty_world) =
      (Inr \<lparr>success = False, mineru_content = None, cancelled = True\<rparr>, storage empty_world)"
    by (simp add: mineru_cancels_def)
  have can: "cancelled \<lparr>success = False, mineru_content = None, cancelled = True\<rparr>"
    by simp
  have c: "calls empty_world = []" by (simp add: empty_world_def)
  from mineru_cancelled_is_wrapped [OF key miss cfg tx nt ty tok sup res can, where settings = "()"] c
  show ?thesis by simp
qed

section \<open>Properties of the search\<close>

lemma search_loop_failed:
  "getSession e (meta_id m) = Inl x \<Longrightarrow>
     search_loop e input cb (m # rest) st = (Some x, st\<lparr>requested := requested st @ [meta_id m]\<rparr>)"
  by (simp add: Let_def)

lemma search_loop_missing:
  "getSession e (meta_id m) = Inr None \<Longrightarrow>
     search_loop e input cb (m # rest) st =
       search_loop e input cb rest (st\<lparr>requested := requested st @ [meta_id m]\<rparr>)"
  by (simp add: Let_def)

lemma search_loop_found:
  "getSession e (meta_id m) = Inr (Some s) \<Longrightarrow>
     search_loop e input True (m # rest) st =
       (if 50 \<le> matchedMessageTotal (scan_step e input (meta_id m) s st)
        then (None, scan_step e input (meta_id m) s st)
        else search_loop e input True rest (scan_step e input (meta_id m) s st))"
  by (simp add: Let_def scan_step_def emitBatch_def has_match_def session_batch_def)

lemma search_loop_invariant:
  "search_loop e input True metas st = (x, st') \<Longrightarrow>
     \<exists>new. scanned st' = scanned st @ new \<and>
           emitted st' = emitted st @ map (session_batch e input) (filter (has_match e input) new) \<and>
           matchedMessageTotal st' = matchedMessageTotal st + match_count e input new"
proof (induction metas arbitrary: st)
  case Nil
  then show ?case by (auto simp: match_count_def)
next
  case (Cons m rest)
  show ?case
  proof (cases "getSession e (meta_id m)")
    case (Inl y)
    from Cons.prems [unfolded search_loop_failed [OF Inl]] show ?thesis
      by (auto simp: match_count_def)
  next
    case (Inr found)
    show ?thesis
    proof (cases found)
      case None
      with Inr have g: "getSession e (meta_id m) = Inr None" by simp
      from Cons.IH [OF Cons.prems [unfolded search_loop_missing [OF g]]] show ?thesis by simp
    next
      case (Some s)
      with Inr have g: "getSession e (meta_id m) = Inr (Some s)" by simp
      let ?st1 = "scan_step e input (meta_id m) s st"
      show ?thesis
      proof (cases "50 \<le> matchedMessageTotal ?st1")
        case True
        with Cons.prems [unfolded search_loop_found [OF g]] have "st' = ?st1" by simp
        then have "scanned st' = scanned st @ [s] \<and>
           emitted st' = emitted st @ map (session_batch e input) (filter (has_match e input) [s]) \<and>
           matchedMessageTotal st' = matchedMessageTotal st + match_count e input [s]"
          by (simp add: scan_step_def match_count_def)
        then show ?thesis by blast
      next
        case False
        with Cons.prems [unfolded search_loop_found [OF g]]
        have "search_loop e input True rest ?st1 = (x, st')" by simp
        from Cons.IH [OF this] obtain new where new:
          "scanned st' = scanned ?st1 @ new"
          "emitted st' = emitted ?st1 @ map (session_batch e input) (filter (has_match e input) new)"
          "matchedMessageTotal st' = matchedMessageTotal ?st1 + match_count e input new"
          by blast
        then have "scanned st' = scanned st @ (s # new) \<and>
           emitted st' = emitted st @
             map (session_batch e input) (filter (has_match e input) (s # new)) \<and>
           matchedMessageTotal st' = matchedMessageTotal st + match_count e input (s # new)"
          by (simp add: scan_step_def match_count_def)
        then show ?thesis by blast
      qed
    qed
  qed
qed

lemma stored_sessions_Nil: "stored_sessions e [] = []"
  by (simp add: stored_sessions_def map_filter_simps)

lemma stored_sessions_missing:
  "getSession e (meta_id m) = Inr None \<Longrightarrow>
     stored_sessions e (m # rest) = stored_sessions e rest"
  by (simp add: stored_sessions_def map_filter_simps)

lemma stored_sessions_found:
  "getSession e (meta_id m) = Inr (Some s) \<Longrightarrow>
     stored_sessions e (m # rest) = s # stored_sessions e rest"
  by (simp add: stored_sessions_def map_filter_simps)

lemma searchSessions_multi:
  "truthy sessionId = None \<Longrightarrow>
     searchSessions e input sessionId cb =
       (case getSessionsList e of
          Inl x \<Rightarrow> (Some x, search_init)
        | Inr sessionsList \<Rightarrow> search_loop e input cb (sortSessions e sessionsList) search_init)"
  by (simp add: searchSessions_def)

lemma searchSessions_single_found:
  "truthy sessionId = Some sid \<Longrightarrow> getSession e sid = Inr (Some s) \<Longrightarrow>
     searchSessions e input sessionId True =
       (None, \<lparr>matchedMessageTotal = length (searchSessions_inner e input s),
               emitted = [session_batch e input s],
               requested = [sid],
               scanned = [s]\<rparr>)"
  by (simp add: searchSessions_def Let_def search_init_def emitBatch_def session_batch_def)

lemma searchSessions_inner_eq:
  "searchSessions_inner e input s =
     map (migrateMessage e)
       (filter (\<lambda>m. regexp_test e input (getMessageText e m)) (rev (messages (migrateSession e s))) @
        concat (map (\<lambda>t. filter (\<lambda>m. regexp_test e input (getMessageText e m))
                             (rev (thread_messages t)))
                  (rev (all_threads (migrateSession e s)))))"
  by (simp add: searchSessions_inner_def matches_backwards_def all_threads_def Let_def
      split: option.splits)

lemma has_match_iff:
  "has_match e input s \<longleftrightarrow>
     (\<exists>m \<in> set (messages (migrateSession e s)) \<union>
             (\<Union>t \<in> set (all_threads (migrateSession e s)). set (thread_messages t)).
        regexp_test e input (getMessageText e m))"
  unfolding has_match_def searchSessions_inner_eq
  by (auto simp: filter_empty_conv)

lemma reachable_failed:
  "getSession e (meta_id m) = Inl x \<Longrightarrow>
     stored_sessions e (takeWhile (loads e) (m # rest)) = []"
  by (simp add: loads_def stored_sessions_def map_filter_simps)

lemma reachable_missing:
  "getSession e (meta_id m) = Inr None \<Longrightarrow>
     stored_sessions e (takeWhile (loads e) (m # rest)) =
       stored_sessions e (takeWhile (loads e) rest)"
  by (simp add: loads_def stored_sessions_def map_filter_simps)

lemma reachable_found:
  "getSession e (meta_id m) = Inr (Some s) \<Longrightarrow>
     stored_sessions e (takeWhile (loads e) (m # rest)) =
       s # stored_sessions e (takeWhile (loads e) rest)"
  by (simp add: loads_def stored_sessions_def map_filter_simps)

lemma search_loop_scanned:
  "scanned (snd (search_loop e input True metas st)) =
     scanned st @ cap_prefix e input (matchedMessageTotal st)
                    (stored_sessions e (takeWhile (loads e) metas))"
proof (induction metas arbitrary: st)
  case Nil
  then show ?case by (simp add: stored_sessions_Nil)
next
  case (Cons m rest)
  show ?case
  proof (cases "getSession e (meta_id m)")
    case (Inl y)
    show ?thesis
      unfolding search_loop_failed [OF Inl] reachable_failed [OF Inl] by simp
  next
    case (Inr found)
    show ?thesis
    proof (cases found)
      case None
      with Inr have g: "getSession e (meta_id m) = Inr None" by simp
      show ?thesis
        unfolding search_loop_missing [OF g] reachable_missing [OF g] Cons.IH by simp
    next
      case (Some s)
      with Inr have g: "getSession e (meta_id m) = Inr (Some s)" by simp
      let ?st1 = "scan_step e input (meta_id m) s st"
      have t: "matchedMessageTotal ?st1 =
          matchedMessageTotal st + length (searchSessions_inner e input s)"
        and sc: "scanned ?st1 = scanned st @ [s]"
        by (simp_all add: scan_step_def)
      show ?thesis
      proof (cases "50 \<le> matchedMessageTotal ?st1")
        case True
        then show ?thesis
          unfolding search_loop_found [OF g] reachable_found [OF g]
          using t sc by simp
      next
        case False
        then show ?thesis
          unfolding search_loop_found [OF g] reachable_found [OF g]
          using t sc Cons.IH [of ?st1] by simp
      qed
    qed
  qed
qed

lemma searchSessions_scanned:
  assumes multi: "truthy sessionId = None"
  shows "scanned (snd (searchSessions e input sessionId True)) =
           cap_prefix e input 0 (reachable_sessions e)"
proof (cases "getSessionsList e")
  case (Inl y)
  with multi show ?thesis
    by (simp add: searchSessions_multi search_init_def reachable_sessions_def listed_metas_def
        stored_sessions_Nil)
next
  case (Inr l)
  with multi show ?thesis
    by (simp add: searchSessions_multi search_loop_scanned search_init_def
        reachable_sessions_def listed_metas_def)
qed

lemma searchSessions_emitted:
  assumes multi: "truthy sessionId = None"
  shows "emitted (snd (searchSessions e input sessionId True)) =
           map (session_batch e input)
             (filter (has_match e input) (scanned (snd (searchSessions e input sessionId True)))) \<and>
         matchedMessageTotal (snd (searchSessions e input sessionId True)) =
           match_count e input (scanned (snd (searchSessions e input sessionId True)))"
proof (cases "getSessionsList e")
  case (Inl y)
  with multi have "snd (searchSessions e input sessionId True) = search_init"
    by (simp add: searchSessions_multi)
  then show ?thesis by (simp add: search_init_def match_count_def)
next
  case (Inr l)
  obtain x st where run: "search_loop e input True (sortSessions e l) search_init = (x, st)"
    by (cases "search_loop e input True (sortSessions e l) search_init")
  with Inr multi have s: "snd (searchSessions e input sessionId True) = st"
    by (simp add: searchSessions_multi)
  from search_loop_invariant [OF run] show ?thesis
    unfolding s by (auto simp: search_init_def)
qed

lemma match_count_simps:
  "match_count e input [] = 0"
  "match_count e input (s # ss) = length (searchSessions_inner e input s) + match_count e input ss"
  "match_count e input (xs @ ys) = match_count e input xs + match_count e input ys"
  by (simp_all add: match_count_def)

lemma cap_prefix_all:
  "n + match_count e input ss < 50 \<Longrightarrow> cap_prefix e input n ss = ss"
  by (induction ss arbitrary: n) (simp_all add: match_count_simps add.assoc)

lemma cap_prefix_append:
  "n + match_count e input pre < 50 \<Longrightarrow>
     cap_prefix e input n (pre @ rest) =
       pre @ cap_prefix e input (n + match_count e input pre) rest"
  by (induction pre arbitrary: n) (simp_all add: match_count_simps add.assoc)

lemma cap_prefix_subset: "set (cap_prefix e input n ss) \<subseteq> set ss"
  by (induction ss arbitrary: n) auto

lemma cap_prefix_includes:
  assumes "match_count e input pre < 50"
  shows "prefix (pre @ [s]) (cap_prefix e input 0 (pre @ s # post))"
proof -
  from assms have "cap_prefix e input 0 (pre @ s # post) =
      pre @ cap_prefix e input (match_count e input pre) (s # post)"
    using cap_prefix_append [of 0 e input pre "s # post"] by simp
  then show ?thesis by (simp add: prefix_def)
qed

lemma cap_prefix_stops:
  assumes "match_count e input pre < 50" "50 \<le> match_count e input (pre @ [s])"
  shows "cap_prefix e input 0 (pre @ s # post) = pre @ [s]"
proof -
  from assms(1) have "cap_prefix e input 0 (pre @ s # post) =
      pre @ cap_prefix e input (match_count e input pre) (s # post)"
    using cap_prefix_append [of 0 e input pre "s # post"] by simp
  with assms(2) show ?thesis by (simp add: match_count_simps)
qed

lemma filter_cap_prefix_none:
  "filter (has_match e input) ss = [] \<Longrightarrow> filter (has_match e input) (cap_prefix e input n ss) = []"
  using cap_prefix_subset [of e input n ss] by (auto simp: filter_empty_conv)

lemma filter_cap_prefix_single:
  "n < 50 \<Longrightarrow> filter (has_match e input) ss = [s] \<Longrightarrow>
     filter (has_match e input) (cap_prefix e input n ss) = [s]"
proof (induction ss arbitrary: n)
  case Nil
  then show ?case by simp
next
  case (Cons x xs)
  show ?case
  proof (cases "has_match e input x")
    case True
    with Cons.prems(2) have x: "x = s" and rest: "filter (has_match e input) xs = []" by simp_all
    from filter_cap_prefix_none [OF rest] True x show ?thesis by simp
  next
    case False
    then have "searchSessions_inner e input x = []" by (simp add: has_match_def)
    with Cons.prems(1) have "cap_prefix e input n (x # xs) = x # cap_prefix e input n xs"
      by simp
    moreover from False Cons.prems(2) have "filter (has_match e input) xs = [s]" by simp
    ultimately show ?thesis using False Cons.IH [OF Cons.prems(1)] by simp
  qed
qed

lemma scenario_inner:
  "searchSessions_inner scenario_env ''errorXYZ'' session1 = []"
  "searchSessions_inner scenario_env ''errorXYZ'' session2 =
     [''errorXYZ again'', ''first errorXYZ'', ''old errorXYZ'']"
  "searchSessions_inner scenario_env ''errorXYZ'' session3 = []"
  by (simp_all add: searchSessions_inner_eq all_threads_def scenario_env_def
      session1_def session2_def session3_def)

lemma cap_inner:
  "searchSessions_inner cap_env ''err'' session_a = replicate 48 ''err''"
  "searchSessions_inner cap_env ''err'' session_b = replicate 5 ''err''"
  by (simp_all add: searchSessions_inner_eq all_threads_def cap_env_def session_a_def session_b_def)

lemma no_explicit_id: "sessionId = None \<or> sessionId = Some [] \<Longrightarrow> truthy sessionId = None"
  by (auto simp: truthy_def)

lemma scenario_reachable:
  "reachable_sessions scenario_env = [session1, session2, session3]"
  by (simp add: reachable_sessions_def listed_metas_def loads_def stored_sessions_def
      map_filter_simps scenario_env_def)

lemma big_inner:
  "searchSessions_inner big_env ''errorXYZ'' session1 = []"
  "searchSessions_inner big_env ''errorXYZ'' session_big = replicate 60 ''errorXYZ''"
  "searchSessions_inner big_env ''errorXYZ'' session3 = []"
  by (simp_all add: searchSessions_inner_eq all_threads_def big_env_def scenario_env_def
      session1_def session_big_def session3_def)

lemma big_reachable:
  "reachable_sessions big_env = [session1, session_big, session3]"
  by (simp add: reachable_sessions_def listed_metas_def loads_def stored_sessions_def
      map_filter_simps big_env_def scenario_env_def)

lemma cap_reachable:
  "reachable_sessions cap_env = [session_a, session_b, session_c]"
  by (simp add: reachable_sessions_def listed_metas_def loads_def stored_sessions_def
      map_filter_simps cap_env_def)

text \<open>
  Claim C7, as \<open>searchSessions\<close> does it. In a search without a session id (\<open>undefined\<close> or
  the empty string), with a callback: the sessions scanned are the sessions the store
  returns for the sorted list, up to the first load that rejects and up to and including
  the session at which the total reaches 50; the batches emitted are, in scan order, one
  for each scanned session that has a match, and none for a scanned session that has none;
  a batch is the single copy of the session with \<open>messages\<close> replaced by the matches
  \<open>_searchSessions\<close> returns, which are the matching live messages, most recent first,
  followed by those of the archived threads, last thread first and in each most recent
  first, each passed through \<open>migrateMessage\<close>; a session has a match exactly when one of
  its live or archived messages matches. So when exactly one of the sessions returned
  before the first rejected load has a match, exactly one batch is emitted, that of this
  session, whatever the number of its matches; when none has, nothing is emitted.
\<close>

theorem searchSessions_batches:
  fixes e :: "'m search_env" and input :: string and sessionId :: "string option"
  defines "st \<equiv> snd (searchSessions e input sessionId True)"
  assumes multi: "sessionId = None \<or> sessionId = Some []"
  shows "scanned st = cap_prefix e input 0 (reachable_sessions e) \<and>
    emitted st = map (session_batch e input) (filter (has_match e input) (scanned st)) \<and>
    length (emitted st) = length (filter (has_match e input) (scanned st)) \<and>
    (\<forall>s. session_batch e input s = [s\<lparr>messages := searchSessions_inner e input s\<rparr>]) \<and>
    (\<forall>s. searchSessions_inner e input s =
       map (migrateMessage e)
         (filter (\<lambda>m. regexp_test e input (getMessageText e m))
            (rev (messages (migrateSession e s))) @
          concat (map (\<lambda>t. filter (\<lambda>m. regexp_test e input (getMessageText e m))
                               (rev (thread_messages t)))
                    (rev (all_threads (migrateSession e s)))))) \<and>
    (\<forall>s. has_match e input s \<longleftrightarrow>
       (\<exists>m \<in> set (messages (migrateSession e s)) \<union>
               (\<Union>t \<in> set (all_threads (migrateSession e s)). set (thread_messages t)).
          regexp_test e input (getMessageText e m))) \<and>
    (\<forall>s. filter (has_match e input) (reachable_sessions e) = [s] \<longrightarrow>
       emitted st = [[s\<lparr>messages := searchSessions_inner e input s\<rparr>]]) \<and>
    (filter (has_match e input) (reachable_sessions e) = [] \<longrightarrow> emitted st = [])"
proof -
  from multi have t: "truthy sessionId = None" by (rule no_explicit_id)
  have sc: "scanned st = cap_prefix e input 0 (reachable_sessions e)"
    unfolding st_def by (rule searchSessions_scanned [OF t])
  from searchSessions_emitted [OF t, of e input]
  have a: "emitted st = map (session_batch e input) (filter (has_match e input) (scanned st))"
    by (simp add: st_def)
  then have b: "length (emitted st) = length (filter (has_match e input) (scanned st))"
    by simp
  have c: "\<forall>s. session_batch e input s = [s\<lparr>messages := searchSessions_inner e input s\<rparr>]"
    by (simp add: session_batch_def)
  have d: "\<forall>s. searchSessions_inner e input s =
       map (migrateMessage e)
         (filter (\<lambda>m. regexp_test e input (getMessageText e m))
            (rev (messages (migrateSession e s))) @
          concat (map (\<lambda>t. filter (\<lambda>m. regexp_test e input (getMessageText e m))
                               (rev (thread_messages t)))
                    (rev (all_threads (migrateSession e s)))))"
    by (simp add: searchSessions_inner_eq)
  have h: "\<forall>s. has_match e input s \<longleftrightarrow>
       (\<exists>m \<in> set (messages (migrateSession e s)) \<union>
               (\<Union>t \<in> set (all_threads (migrateSession e s)). set (thread_messages t)).
          regexp_test e input (getMessageText e m))"
    using has_match_iff [of e input] by blast
  have one: "emitted st = [[s\<lparr>messages := searchSessions_inner e input s\<rparr>]]"
    if "filter (has_match e input) (reachable_sessions e) = [s]" for s
  proof -
    from filter_cap_prefix_single [OF _ that, of 0]
    have "filter (has_match e input) (scanned st) = [s]" unfolding sc by simp
    with a show ?thesis by (simp add: session_batch_def)
  qed
  have zero: "emitted st = []" if "filter (has_match e input) (reachable_sessions e) = []"
  proof -
    from filter_cap_prefix_none [OF that, of 0]
    have "filter (has_match e input) (scanned st) = []" unfolding sc .
    with a show ?thesis by simp
  qed
  from sc a b c d h one zero show ?thesis by blast
qed

text \<open>Scenario D: one batch, for the second session, with its three matches; and with a
  second session of 60 matches, one batch with all of them.\<close>

theorem searchSessions_batches_witness:
  "emitted (snd (searchSessions scenario_env ''errorXYZ'' None True)) =
     [[session2\<lparr>messages := [''errorXYZ again'', ''first errorXYZ'', ''old errorXYZ'']\<rparr>]] \<and>
   emitted (snd (searchSessions big_env ''errorXYZ'' None True)) =
     [[session_big\<lparr>messages := replicate 60 ''errorXYZ''\<rparr>]]"
proof -
  have multi: "(None :: string option) = None \<or> None = Some []" by simp
  have f1: "filter (has_match scenario_env ''errorXYZ'') (reachable_sessions scenario_env) =
      [session2]"
    by (simp add: scenario_reachable has_match_def scenario_inner)
  have f2: "filter (has_match big_env ''errorXYZ'') (reachable_sessions big_env) = [session_big]"
    by (simp add: big_reachable has_match_def big_inner)
  from searchSessions_batches [OF multi, of scenario_env "''errorXYZ''"] f1
  have 1: "emitted (snd (searchSessions scenario_env ''errorXYZ'' None True)) =
     [[session2\<lparr>messages := searchSessions_inner scenario_env ''errorXYZ'' session2\<rparr>]]"
    by blast
  from searchSessions_batches [OF multi, of big_env "''errorXYZ''"] f2
  have 2: "emitted (snd (searchSessions big_env ''errorXYZ'' None True)) =
     [[session_big\<lparr>messages := searchSessions_inner big_env ''errorXYZ'' session_big\<rparr>]]"
    by blast
  from 1 2 show ?thesis by (simp add: scenario_inner big_inner)
qed

text \<open>Claim C7 as stated fails when a load rejects: in scenario D with a load of the first
  session that rejects, the query matches only the second of the three sessions, which
  the store holds, and no batch is emitted; the search ends with the exception.\<close>

theorem searchSessions_batches_counterexample:
  "emitted (snd (searchSessions failing_load_env ''errorXYZ'' None True)) = [] \<and>
   fst (searchSessions failing_load_env ''errorXYZ'' None True) = Some (Error ''boom'') \<and>
   getSessionsList failing_load_env =
     Inr [\<lparr>meta_id = ''s1''\<rparr>, \<lparr>meta_id = ''s2''\<rparr>, \<lparr>meta_id = ''s3''\<rparr>] \<and>
   getSession failing_load_env ''s2'' = Inr (Some session2) \<and>
   searchSessions_inner failing_load_env ''errorXYZ'' session2 =
     [''errorXYZ again'', ''first errorXYZ'', ''old errorXYZ'']"
proof -
  have g: "getSession failing_load_env ''s1'' = Inl (Error ''boom'')"
    "getSession failing_load_env ''s2'' = Inr (Some session2)"
    by (simp_all add: failing_load_env_def scenario_env_def)
  have l: "getSessionsList failing_load_env =
     Inr [\<lparr>meta_id = ''s1''\<rparr>, \<lparr>meta_id = ''s2''\<rparr>, \<lparr>meta_id = ''s3''\<rparr>]"
    "sortSessions failing_load_env [\<lparr>meta_id = ''s1''\<rparr>, \<lparr>meta_id = ''s2''\<rparr>, \<lparr>meta_id = ''s3''\<rparr>] =
       [\<lparr>meta_id = ''s1''\<rparr>, \<lparr>meta_id = ''s2''\<rparr>, \<lparr>meta_id = ''s3''\<rparr>]"
    by (simp_all add: failing_load_env_def scenario_env_def)
  have run: "searchSessions failing_load_env ''errorXYZ'' None True =
      (Some (Error ''boom''), search_init\<lparr>requested := [''s1'']\<rparr>)"
    by (simp add: searchSessions_def truthy_def l g Let_def search_init_def)
  have inner: "searchSessions_inner failing_load_env ''errorXYZ'' session2 =
     [''errorXYZ again'', ''first errorXYZ'', ''old errorXYZ'']"
    by (simp add: searchSessions_inner_eq all_threads_def failing_load_env_def scenario_env_def
        session2_def)
  from run g l inner show ?thesis by (simp add: search_init_def)
qed

text \<open>
  Claim C5. In a search without a session id (\<open>undefined\<close> or the empty string), with a
  callback, let the sessions be those the store returns for the sorted list before the
  first load that rejects. The sessions scanned are these up to and including the first
  at which the number of matches so far reaches 50: every session before which fewer than
  50 matches were found is scanned, and the session with which the number reaches 50 is
  the last one scanned, so no later session is scanned or emitted; when fewer than 50
  matches exist, all are scanned. The batches emitted are those of the scanned sessions
  with a match, each with all matches of its session, so the session that crosses the cap
  is emitted in full, and the total is the number of matches of the scanned sessions.
  With a session id (a string that is not empty) that the store holds, the result is the
  single batch with all matches of that session, whatever their number.
\<close>

theorem searchSessions_cap:
  fixes e :: "'m search_env" and input :: string and sessionId :: "string option"
  defines "st \<equiv> snd (searchSessions e input sessionId True)"
    and "found \<equiv> cap_prefix e input 0 (reachable_sessions e)"
  shows
   "(sessionId = None \<or> sessionId = Some [] \<longrightarrow>
       scanned st = found \<and>
       emitted st = map (session_batch e input) (filter (has_match e input) found) \<and>
       matchedMessageTotal st = match_count e input found) \<and>
    (\<forall>pre s post. reachable_sessions e = pre @ s # post \<and> match_count e input pre < 50 \<longrightarrow>
       prefix (pre @ [s]) found) \<and>
    (\<forall>pre s post. reachable_sessions e = pre @ s # post \<and> match_count e input pre < 50 \<and>
       50 \<le> match_count e input (pre @ [s]) \<longrightarrow> found = pre @ [s]) \<and>
    (match_count e input (reachable_sessions e) < 50 \<longrightarrow> found = reachable_sessions e) \<and>
    (\<forall>s. session_batch e input s = [s\<lparr>messages := searchSessions_inner e input s\<rparr>]) \<and>
    (\<forall>sid s. sessionId = Some sid \<and> sid \<noteq> [] \<and> getSession e sid = Inr (Some s) \<longrightarrow>
       searchSessions e input sessionId True =
         (None, \<lparr>matchedMessageTotal = length (searchSessions_inner e input s),
                 emitted = [[s\<lparr>messages := searchSessions_inner e input s\<rparr>]],
                 requested = [sid],
                 scanned = [s]\<rparr>))"
proof -
  have a: "scanned st = found \<and>
       emitted st = map (session_batch e input) (filter (has_match e input) found) \<and>
       matchedMessageTotal st = match_count e input found"
    if "sessionId = None \<or> sessionId = Some []"
  proof -
    from that have t: "truthy sessionId = None" by (rule no_explicit_id)
    have sc: "scanned st = found"
      unfolding st_def found_def by (rule searchSessions_scanned [OF t])
    from searchSessions_emitted [OF t, of e input] show ?thesis
      unfolding sc [symmetric] by (simp add: st_def)
  qed
  have b: "prefix (pre @ [s]) found"
    if "reachable_sessions e = pre @ s # post" "match_count e input pre < 50" for pre s post
    unfolding found_def that(1) using that(2) by (rule cap_prefix_includes)
  have c: "found = pre @ [s]"
    if "reachable_sessions e = pre @ s # post" "match_count e input pre < 50"
      "50 \<le> match_count e input (pre @ [s])" for pre s post
    unfolding found_def that(1) using that(2,3) by (rule cap_prefix_stops)
  have d: "found = reachable_sessions e" if "match_count e input (reachable_sessions e) < 50"
    unfolding found_def using that by (intro cap_prefix_all) simp
  have f: "\<forall>s. session_batch e input s = [s\<lparr>messages := searchSessions_inner e input s\<rparr>]"
    by (simp add: session_batch_def)
  have g: "searchSessions e input sessionId True =
         (None, \<lparr>matchedMessageTotal = length (searchSessions_inner e input s),
                 emitted = [[s\<lparr>messages := searchSessions_inner e input s\<rparr>]],
                 requested = [sid],
                 scanned = [s]\<rparr>)"
    if "sessionId = Some sid" "sid \<noteq> []" "getSession e sid = Inr (Some s)" for sid s
  proof -
    from that(1,2) have "truthy sessionId = Some sid" by (simp add: truthy_def)
    from searchSessions_single_found [OF this that(3)] show ?thesis
      by (simp add: session_batch_def)
  qed
  from a b c d f g show ?thesis by blast
qed

text \<open>48 matches, then 5: both sessions are scanned and emitted in full, the third is not
  scanned. With the id of a session of 60 matches, all 60 are emitted.\<close>

theorem searchSessions_cap_witness:
  "scanned (snd (searchSessions cap_env ''err'' None True)) = [session_a, session_b] \<and>
   emitted (snd (searchSessions cap_env ''err'' None True)) =
     [[session_a\<lparr>messages := replicate 48 ''err''\<rparr>],
      [session_b\<lparr>messages := replicate 5 ''err''\<rparr>]] \<and>
   matchedMessageTotal (snd (searchSessions cap_env ''err'' None True)) = 53 \<and>
   emitted (snd (searchSessions big_env ''errorXYZ'' (Some ''big'') True)) =
     [[session_big\<lparr>messages := replicate 60 ''errorXYZ''\<rparr>]]"
proof -
  note t = searchSessions_cap [where e = cap_env and input = "''err''" and sessionId = None]
  have r: "reachable_sessions cap_env = [session_a] @ session_b # [session_c]"
    by (simp add: cap_reachable)
  have m: "match_count cap_env ''err'' [session_a] < 50"
    "50 \<le> match_count cap_env ''err'' ([session_a] @ [session_b])"
    by (simp_all add: match_count_def cap_inner)
  from t r m have found: "cap_prefix cap_env ''err'' 0 (reachable_sessions cap_env) =
      [session_a] @ [session_b]"
    by blast
  from t have "scanned (snd (searchSessions cap_env ''err'' None True)) =
       cap_prefix cap_env ''err'' 0 (reachable_sessions cap_env) \<and>
     emitted (snd (searchSessions cap_env ''err'' None True)) =
       map (session_batch cap_env ''err'')
         (filter (has_match cap_env ''err'') (cap_prefix cap_env ''err'' 0 (reachable_sessions cap_env))) \<and>
     matchedMessageTotal (snd (searchSessions cap_env ''err'' None True)) =
       match_count cap_env ''err'' (cap_prefix cap_env ''err'' 0 (reachable_sessions cap_env))"
    by blast
  then have multi: "scanned (snd (searchSessions cap_env ''err'' None True)) =
       [session_a, session_b] \<and>
     emitted (snd (searchSessions cap_env ''err'' None True)) =
       [[session_a\<lparr>messages := replicate 48 ''err''\<rparr>],
        [session_b\<lparr>messages := replicate 5 ''err''\<rparr>]] \<and>
     matchedMessageTotal (snd (searchSessions cap_env ''err'' None True)) = 53"
    unfolding found by (simp add: has_match_def session_batch_def match_count_def cap_inner)
  have s: "getSession big_env ''big'' = Inr (Some session_big)"
    by (simp add: big_env_def)
  from searchSessions_cap [where e = big_env and input = "''errorXYZ''"
      and sessionId = "Some ''big''"] s
  have "searchSessions big_env ''errorXYZ'' (Some ''big'') True =
         (None, \<lparr>matchedMessageTotal = length (searchSessions_inner big_env ''errorXYZ'' session_big),
                 emitted = [[session_big\<lparr>messages :=
                    searchSessions_inner big_env ''errorXYZ'' session_big\<rparr>]],
                 requested = [''big''],
                 scanned = [session_big]\<rparr>)"
    by simp
  then have "emitted (snd (searchSessions big_env ''errorXYZ'' (Some ''big'') True)) =
     [[session_big\<lparr>messages := replicate 60 ''errorXYZ''\<rparr>]]"
    by (simp add: big_inner)
  with multi show ?thesis by simp
qed

text \<open>
  Claim C10. When \<open>searchSessions\<close> is called with a session id (a string that is not
  empty, as \<open>if (sessionId)\<close> asks) and a callback, and the store holds the session,
  exactly one batch is emitted: the copy of the session with the matches as \<open>messages\<close>,
  the empty list when nothing matches; whereas the search without a session id over a
  list of just that session emits nothing when nothing matches.
\<close>

theorem searchSessions_explicit_id:
  assumes given: "sessionId = Some sid" "sid \<noteq> []"
    and stored: "getSession e sid = Inr (Some s)"
  shows "fst (searchSessions e input sessionId True) = None \<and>
    emitted (snd (searchSessions e input sessionId True)) =
      [[s\<lparr>messages := searchSessions_inner e input s\<rparr>]] \<and>
    length (emitted (snd (searchSessions e input sessionId True))) = 1 \<and>
    (searchSessions_inner e input s = [] \<longrightarrow>
       emitted (snd (searchSessions e input sessionId True)) = [[s\<lparr>messages := []\<rparr>]] \<and>
       (\<forall>l m. getSessionsList e = Inr l \<and> sortSessions e l = [m] \<and> meta_id m = sid \<longrightarrow>
          emitted (snd (searchSessions e input None True)) = []))"
proof -
  from given have t: "truthy sessionId = Some sid" by (simp add: truthy_def)
  note one = searchSessions_single_found [OF t stored, of input]
  have multi: "emitted (snd (searchSessions e input None True)) = []"
    if none: "searchSessions_inner e input s = []"
      and l: "getSessionsList e = Inr l" "sortSessions e l = [m]" "meta_id m = sid" for l m
  proof -
    from stored l(3) have g: "getSession e (meta_id m) = Inr (Some s)" by simp
    have "searchSessions e input None True = search_loop e input True [m] search_init"
      using l by (simp add: searchSessions_multi truthy_def)
    then show ?thesis
      unfolding search_loop_found [OF g]
      by (simp add: scan_step_def has_match_def none search_init_def)
  qed
  from one multi show ?thesis by (auto simp: session_batch_def)
qed

text \<open>The first session of scenario D has no match: one batch with an id, none without.\<close>

theorem searchSessions_explicit_id_witness:
  "emitted (snd (searchSessions lonely_env ''errorXYZ'' (Some ''s1'') True)) =
     [[session1\<lparr>messages := []\<rparr>]] \<and>
   emitted (snd (searchSessions lonely_env ''errorXYZ'' None True)) = []"
proof -
  have given: "Some ''s1'' = Some ''s1''" "''s1'' \<noteq> []" by simp_all
  have stored: "getSession lonely_env ''s1'' = Inr (Some session1)"
    by (simp add: lonely_env_def scenario_env_def)
  have inner: "searchSessions_inner lonely_env ''errorXYZ'' session1 = []"
    by (simp add: searchSessions_inner_eq all_threads_def lonely_env_def scenario_env_def
        session1_def)
  have l: "getSessionsList lonely_env = Inr [\<lparr>meta_id = ''s1''\<rparr>]"
    "sortSessions lonely_env [\<lparr>meta_id = ''s1''\<rparr>] = [\<lparr>meta_id = ''s1''\<rparr>]"
    "meta_id \<lparr>meta_id = ''s1''\<rparr> = ''s1''"
    by (simp_all add: lonely_env_def scenario_env_def)
  from searchSessions_explicit_id [OF given stored, of "''errorXYZ''"] inner l
  show ?thesis by simp
qed

end
